theory Spec2Isabelle
  imports Main "HOL-Library.Finite_Map" "HOL-Library.Word"
begin

section \<open>Values, errors and panics\<close>

text \<open>
  The handler of \<^verbatim>\<open>fastly/block_fastly_service_v1_logging_kafka.go\<close> works on
  \<^verbatim>\<open>interface{}\<close> values: the fields of a block are strings, booleans and
  integers, a block is a \<^verbatim>\<open>map[string]interface{}\<close>, and an element of a
  \<^verbatim>\<open>schema.Set\<close> is any \<^verbatim>\<open>interface{}\<close>. Go's \<^verbatim>\<open>int\<close> and \<^verbatim>\<open>uint\<close> are
  64-bit words; \<open>VNil\<close> is the nil interface, which indexing a map at a missing key yields.
\<close>

datatype val = VNil | VString string | VBool bool | VInt "64 word" | VUint "64 word"

type_synonym rmap = "(string, val) fmap"

datatype resource = RMap rmap | ROther val

text \<open>
  Errors: \<^verbatim>\<open>*gofastly.HTTPError\<close> with its status code, the error built by
  \<^verbatim>\<open>fmt.Errorf\<close> from a format and the value it prints, and any other error of the client.
\<close>

datatype error = HTTPError (StatusCode: int) string | Errorf string resource | ErrorString string

text \<open>A failed type assertion panics; \<open>Done\<close> is normal completion.\<close>

datatype 'a exec = Panic | Done 'a

definition exec_bind :: "'a exec \<Rightarrow> ('a \<Rightarrow> 'b exec) \<Rightarrow> 'b exec" where
  "exec_bind m f = (case m of Panic \<Rightarrow> Panic | Done x \<Rightarrow> f x)"

fun exec_seq :: "('a \<Rightarrow> 'a exec) list \<Rightarrow> 'a \<Rightarrow> 'a exec" where
  "exec_seq [] x = Done x"
| "exec_seq (f # fs) x = (case f x of Panic \<Rightarrow> Panic | Done y \<Rightarrow> exec_seq fs y)"

text \<open>\<^verbatim>\<open>m[k]\<close>, \<^verbatim>\<open>v.(string)\<close>, \<^verbatim>\<open>v.(bool)\<close> and \<^verbatim>\<open>v.(int)\<close>.\<close>

definition index :: "rmap \<Rightarrow> string \<Rightarrow> val" where
  "index m k = (case fmlookup m k of None \<Rightarrow> VNil | Some v \<Rightarrow> v)"

definition assert_string :: "val \<Rightarrow> string exec" where
  "assert_string v = (case v of VString s \<Rightarrow> Done s | _ \<Rightarrow> Panic)"

definition assert_bool :: "val \<Rightarrow> bool exec" where
  "assert_bool v = (case v of VBool b \<Rightarrow> Done b | _ \<Rightarrow> Panic)"

definition assert_int :: "val \<Rightarrow> 64 word exec" where
  "assert_int v = (case v of VInt i \<Rightarrow> Done i | _ \<Rightarrow> Panic)"

section \<open>The API client\<close>

text \<open>
  The structs of the API client that the handler reads and builds, with the fields the
  handler names. A pointer field of \<^verbatim>\<open>UpdateKafkaInput\<close> is an option: \<open>None\<close> is the
  unset (nil) field.
\<close>

record Kafka =
  Name :: string
  Topic :: string
  Brokers :: string
  CompressionCodec :: string
  RequiredACKs :: string
  UseTLS :: bool
  TLSCACert :: string
  TLSClientCert :: string
  TLSClientKey :: string
  TLSHostname :: string
  Format :: string
  FormatVersion :: "64 word"
  Placement :: string
  ResponseCondition :: string
  ParseLogKeyvals :: bool
  RequestMaxBytes :: "64 word"
  AuthMethod :: string
  User :: string
  Password :: string

record DeleteKafkaInput =
  ServiceID :: string
  ServiceVersion :: int
  Name :: string

record CreateKafkaInput =
  ServiceID :: string
  ServiceVersion :: int
  Name :: string
  Brokers :: string
  Topic :: string
  RequiredACKs :: string
  UseTLS :: bool
  CompressionCodec :: string
  TLSCACert :: string
  TLSClientCert :: string
  TLSClientKey :: string
  TLSHostname :: string
  Format :: string
  FormatVersion :: "64 word"
  Placement :: string
  ResponseCondition :: string
  ParseLogKeyvals :: bool
  RequestMaxBytes :: "64 word"
  AuthMethod :: string
  User :: string
  Password :: string

record UpdateKafkaInput =
  ServiceID :: string
  ServiceVersion :: int
  Name :: string
  Brokers :: "string option"
  Topic :: "string option"
  RequiredACKs :: "string option"
  UseTLS :: "bool option"
  CompressionCodec :: "string option"
  Format :: "string option"
  FormatVersion :: "64 word option"
  ResponseCondition :: "string option"
  Placement :: "string option"
  TLSCACert :: "string option"
  TLSHostname :: "string option"
  TLSClientCert :: "string option"
  TLSClientKey :: "string option"
  ParseLogKeyvals :: "bool option"
  RequestMaxBytes :: "64 word option"
  AuthMethod :: "string option"
  User :: "string option"
  Password :: "string option"

datatype api_call =
  DeleteKafka DeleteKafkaInput
| CreateKafka CreateKafkaInput
| UpdateKafka UpdateKafkaInput

text \<open>
  \<^verbatim>\<open>conn *gofastly.Client\<close>: the remote API answers a call with nil or an error, and its
  answer may depend on every call issued before. The client is the answer function
  together with the calls issued so far, in order; a call appends itself to them.
\<close>

record Client =
  respond :: "api_call list \<Rightarrow> api_call \<Rightarrow> error option"
  issued :: "api_call list"

definition invoke :: "Client \<Rightarrow> api_call \<Rightarrow> error option \<times> Client" where
  "invoke conn c = (respond conn (issued conn) c, conn\<lparr>issued := issued conn @ [c]\<rparr>)"

section \<open>The host's resource data and the handler\<close>

text \<open>
  \<^verbatim>\<open>d *schema.ResourceData\<close>: \<^verbatim>\<open>d.Id()\<close> and \<^verbatim>\<open>d.GetChange(key)\<close>, whose two results
  are nil or a \<^verbatim>\<open>*schema.Set\<close>. A set is the list of its elements, in the order in which
  \<^verbatim>\<open>List()\<close> and \<^verbatim>\<open>range\<close> enumerate them.
\<close>

record ResourceData =
  Id :: string
  GetChange :: "string \<Rightarrow> resource list option \<times> resource list option"

record VCLLoggingAttributes =
  format :: string
  formatVersion :: "64 word option"
  placement :: string
  responseCondition :: string

text \<open>
  \<^verbatim>\<open>KafkaServiceAttributeHandler\<close> embeds \<^verbatim>\<open>DefaultServiceAttributeHandler\<close>, which is
  declared in another file together with \<^verbatim>\<open>uintOrDefault\<close>. What the handler calls there
  is a parameter: the key that \<^verbatim>\<open>GetKey()\<close> returns, \<^verbatim>\<open>getVCLLoggingAttributes\<close> (which
  may panic on a type assertion) and \<^verbatim>\<open>uintOrDefault\<close>.
\<close>

record KafkaServiceAttributeHandler =
  GetKey :: string
  getVCLLoggingAttributes :: "rmap \<Rightarrow> VCLLoggingAttributes exec"
  uintOrDefault :: "64 word option \<Rightarrow> 64 word"

section \<open>The set reconciliation utility\<close>

text \<open>
  \<^verbatim>\<open>NewSetDiff\<close>, \<^verbatim>\<open>Diff\<close> and \<^verbatim>\<open>Filter\<close> are declared in another file of the
  package. They are modelled from section 4.1 of the spec: given an old set and a new set
  of records, each externally keyed by a user-supplied extractor function, produce three
  partitions: Added (in new, not in old), Deleted (in old, not in new), Modified (in both,
  differing); a failed extraction aborts the diff with an error; only changed fields are
  surfaced to the caller via a filter operation.
\<close>

text \<open>
  Modelled from the spec: \<^verbatim>\<open>NewSetDiff\<close> is missing; the utility holds the
  user-supplied extractor function, which yields a key or fails with an error.
\<close>

datatype SetDiff = NewSetDiff (keyFunc: "resource \<Rightarrow> error + val")

text \<open>Modelled from the spec: \<^verbatim>\<open>DiffResult\<close> is missing; the three partitions.\<close>

record DiffResult =
  Added :: "resource list"
  Modified :: "resource list"
  Deleted :: "resource list"

text \<open>
  Modelled from the spec: the key extraction of \<^verbatim>\<open>Diff\<close> is missing; extraction over
  all records of a set, where the first failed extraction aborts with its error.
\<close>

fun extract_keys :: "SetDiff \<Rightarrow> resource list \<Rightarrow> error + val list" where
  "extract_keys h [] = Inr []"
| "extract_keys h (elem # rest) =
     (case keyFunc h elem of
        Inl err \<Rightarrow> Inl err
      | Inr k \<Rightarrow> (case extract_keys h rest of Inl err \<Rightarrow> Inl err | Inr ks \<Rightarrow> Inr (k # ks)))"

text \<open>
  Modelled from the spec: the lookup by key of \<^verbatim>\<open>Diff\<close> and \<^verbatim>\<open>Filter\<close> is missing;
  the old counterpart of a record is the first old record with the same key.
\<close>

definition counterpart :: "SetDiff \<Rightarrow> resource list \<Rightarrow> resource \<Rightarrow> resource option" where
  "counterpart h oldSet elem = find (\<lambda>old. keyFunc h old = keyFunc h elem) oldSet"

text \<open>
  Modelled from the spec: the membership test of \<^verbatim>\<open>Diff\<close> is missing; a record is
  "in" a set when the set has a record with the same key.
\<close>

definition has_key :: "SetDiff \<Rightarrow> resource list \<Rightarrow> resource \<Rightarrow> bool" where
  "has_key h xs elem = (keyFunc h elem \<in> set (map (keyFunc h) xs))"

text \<open>
  Modelled from the spec: the comparison of \<^verbatim>\<open>Diff\<close> is missing; a record is "in
  both, differing" when it has an old counterpart that is not equal to it, field by field.
\<close>

definition differing :: "SetDiff \<Rightarrow> resource list \<Rightarrow> resource \<Rightarrow> bool" where
  "differing h oldSet elem =
     (case counterpart h oldSet elem of None \<Rightarrow> False | Some old \<Rightarrow> old \<noteq> elem)"

text \<open>
  Modelled from the spec: \<^verbatim>\<open>Diff\<close> is missing; it extracts the keys of the old set,
  then of the new set, and produces the three partitions, each in the order of the set it
  is taken from. Modified holds records of the new set: \<^verbatim>\<open>Process\<close> hands each of
  them to \<^verbatim>\<open>Filter\<close> together with the old set.
\<close>

definition Diff :: "SetDiff \<Rightarrow> resource list \<Rightarrow> resource list \<Rightarrow> error + DiffResult" where
  "Diff h oldSet newSet =
     (case extract_keys h oldSet of
        Inl err \<Rightarrow> Inl err
      | Inr oldKeys \<Rightarrow>
          (case extract_keys h newSet of
             Inl err \<Rightarrow> Inl err
           | Inr newKeys \<Rightarrow>
               Inr \<lparr>Added = filter (\<lambda>elem. \<not> has_key h oldSet elem) newSet,
                    Modified = filter (differing h oldSet) newSet,
                    Deleted = filter (\<lambda>elem. \<not> has_key h newSet elem) oldSet\<rparr>))"


text \<open>
  Modelled from the spec: \<^verbatim>\<open>Filter\<close> is missing; it keeps the fields of a record
  whose value is not the value that the record's old counterpart has for the same field.
\<close>

definition Filter :: "SetDiff \<Rightarrow> rmap \<Rightarrow> resource list \<Rightarrow> rmap" where
  "Filter h modified oldSet =
     (case counterpart h oldSet (RMap modified) of
        Some (RMap old) \<Rightarrow> fmfilter (\<lambda>k. fmlookup old k \<noteq> fmlookup modified k) modified
      | _ \<Rightarrow> fmempty)"

section \<open>The Kafka logging handler\<close>

subsection \<open>\<^verbatim>\<open>createKafka\<close> and \<^verbatim>\<open>deleteKafka\<close>\<close>

definition createKafka :: "Client \<Rightarrow> CreateKafkaInput \<Rightarrow> error option \<times> Client" where
  "createKafka conn i = (case invoke conn (CreateKafka i) of (err, conn') \<Rightarrow> (err, conn'))"

definition deleteKafka :: "Client \<Rightarrow> DeleteKafkaInput \<Rightarrow> error option \<times> Client" where
  "deleteKafka conn i =
     (case invoke conn (DeleteKafka i) of
        (err, conn') \<Rightarrow>
          (case err of
             Some (HTTPError code msg) \<Rightarrow> if code \<noteq> 404 then (err, conn') else (None, conn')
           | Some other \<Rightarrow> (err, conn')
           | None \<Rightarrow> (None, conn')))"

subsection \<open>\<^verbatim>\<open>flattenKafka\<close>\<close>

definition flatKafka :: "Kafka \<Rightarrow> rmap" where
  "flatKafka s = fmap_of_list
     [(''name'', VString (Kafka.Name s)),
      (''topic'', VString (Kafka.Topic s)),
      (''brokers'', VString (Kafka.Brokers s)),
      (''compression_codec'', VString (Kafka.CompressionCodec s)),
      (''required_acks'', VString (Kafka.RequiredACKs s)),
      (''use_tls'', VBool (Kafka.UseTLS s)),
      (''tls_ca_cert'', VString (Kafka.TLSCACert s)),
      (''tls_client_cert'', VString (Kafka.TLSClientCert s)),
      (''tls_client_key'', VString (Kafka.TLSClientKey s)),
      (''tls_hostname'', VString (Kafka.TLSHostname s)),
      (''format'', VString (Kafka.Format s)),
      (''format_version'', VUint (Kafka.FormatVersion s)),
      (''placement'', VString (Kafka.Placement s)),
      (''response_condition'', VString (Kafka.ResponseCondition s)),
      (''parse_log_keyvals'', VBool (Kafka.ParseLogKeyvals s)),
      (''request_max_bytes'', VUint (Kafka.RequestMaxBytes s)),
      (''auth_method'', VString (Kafka.AuthMethod s)),
      (''user'', VString (Kafka.User s)),
      (''password'', VString (Kafka.Password s))]"

text \<open>
  The pruning loop ranges over the entries of the map and deletes the current entry when
  its value is the string \<^verbatim>\<open>""\<close>. Go leaves the order of the range open; the model visits
  the keys in the order of a list.
\<close>

fun prune :: "string list \<Rightarrow> rmap \<Rightarrow> rmap" where
  "prune [] m = m"
| "prune (k # ks) m =
     (case fmlookup m k of
        None \<Rightarrow> prune ks m
      | Some v \<Rightarrow> if v = VString [] then prune ks (fmdrop k m) else prune ks m)"

definition kafka_keys :: "string list" where
  "kafka_keys =
     [''name'', ''topic'', ''brokers'', ''compression_codec'', ''required_acks'', ''use_tls'',
      ''tls_ca_cert'', ''tls_client_cert'', ''tls_client_key'', ''tls_hostname'', ''format'',
      ''format_version'', ''placement'', ''response_condition'', ''parse_log_keyvals'',
      ''request_max_bytes'', ''auth_method'', ''user'', ''password'']"

definition flattenKafka :: "Kafka list \<Rightarrow> rmap list" where
  "flattenKafka kafkaList = map (\<lambda>s. prune kafka_keys (flatKafka s)) kafkaList"

subsection \<open>\<^verbatim>\<open>buildDelete\<close> and \<^verbatim>\<open>buildCreate\<close>\<close>

definition buildDelete ::
  "KafkaServiceAttributeHandler \<Rightarrow> resource \<Rightarrow> string \<Rightarrow> int \<Rightarrow> DeleteKafkaInput exec" where
  "buildDelete h kafkaMap serviceID serviceVersion =
     (case kafkaMap of
        ROther v \<Rightarrow> Panic
      | RMap df \<Rightarrow>
          exec_bind (assert_string (index df ''name'')) (\<lambda>name.
          Done \<lparr>DeleteKafkaInput.ServiceID = serviceID,
                ServiceVersion = serviceVersion,
                Name = name\<rparr>))"

definition buildCreate ::
  "KafkaServiceAttributeHandler \<Rightarrow> resource \<Rightarrow> string \<Rightarrow> int \<Rightarrow> CreateKafkaInput exec" where
  "buildCreate h kafkaMap serviceID serviceVersion =
     (case kafkaMap of
        ROther v \<Rightarrow> Panic
      | RMap df \<Rightarrow>
          exec_bind (getVCLLoggingAttributes h df) (\<lambda>vla.
          exec_bind (assert_string (index df ''name'')) (\<lambda>name.
          exec_bind (assert_string (index df ''brokers'')) (\<lambda>brokers.
          exec_bind (assert_string (index df ''topic'')) (\<lambda>topic.
          exec_bind (assert_string (index df ''required_acks'')) (\<lambda>required_acks.
          exec_bind (assert_bool (index df ''use_tls'')) (\<lambda>use_tls.
          exec_bind (assert_string (index df ''compression_codec'')) (\<lambda>compression_codec.
          exec_bind (assert_string (index df ''tls_ca_cert'')) (\<lambda>tls_ca_cert.
          exec_bind (assert_string (index df ''tls_client_cert'')) (\<lambda>tls_client_cert.
          exec_bind (assert_string (index df ''tls_client_key'')) (\<lambda>tls_client_key.
          exec_bind (assert_string (index df ''tls_hostname'')) (\<lambda>tls_hostname.
          exec_bind (assert_bool (index df ''parse_log_keyvals'')) (\<lambda>parse_log_keyvals.
          exec_bind (assert_int (index df ''request_max_bytes'')) (\<lambda>request_max_bytes.
          exec_bind (assert_string (index df ''auth_method'')) (\<lambda>auth_method.
          exec_bind (assert_string (index df ''user'')) (\<lambda>user.
          exec_bind (assert_string (index df ''password'')) (\<lambda>password.
          Done \<lparr>CreateKafkaInput.ServiceID = serviceID,
                ServiceVersion = serviceVersion,
                Name = name,
                Brokers = brokers,
                Topic = topic,
                RequiredACKs = required_acks,
                UseTLS = use_tls,
                CompressionCodec = compression_codec,
                TLSCACert = tls_ca_cert,
                TLSClientCert = tls_client_cert,
                TLSClientKey = tls_client_key,
                TLSHostname = tls_hostname,
                Format = format vla,
                FormatVersion = uintOrDefault h (formatVersion vla),
                Placement = placement vla,
                ResponseCondition = responseCondition vla,
                ParseLogKeyvals = parse_log_keyvals,
                RequestMaxBytes = request_max_bytes,
                AuthMethod = auth_method,
                User = user,
                Password = password\<rparr>)))))))))))))))))"

subsection \<open>\<^verbatim>\<open>Process\<close>\<close>

text \<open>The key extractor that \<^verbatim>\<open>Process\<close> hands to \<^verbatim>\<open>NewSetDiff\<close>.\<close>

definition name_key :: "resource \<Rightarrow> error + val" where
  "name_key resource =
     (case resource of
        RMap t \<Rightarrow> Inr (index t ''name'')
      | ROther v \<Rightarrow> Inl (Errorf ''resource failed to be type asserted: %+v'' resource))"

text \<open>
  A \<^verbatim>\<open>for ... range\<close> loop whose body may return an error or panic. The body yields
  \<open>Done None\<close> when it reaches its end or a \<^verbatim>\<open>continue\<close>, \<open>Done (Some err)\<close> at a
  \<^verbatim>\<open>return err\<close>, and \<open>Panic\<close> at a failed type assertion.
\<close>

fun range_loop ::
  "('a \<Rightarrow> Client \<Rightarrow> error option exec \<times> Client) \<Rightarrow> 'a list \<Rightarrow> Client
   \<Rightarrow> error option exec \<times> Client" where
  "range_loop body [] conn = (Done None, conn)"
| "range_loop body (x # xs) conn =
     (case body x conn of
        (Done None, conn') \<Rightarrow> range_loop body xs conn'
      | (r, conn') \<Rightarrow> (r, conn'))"

text \<open>The body of the loop over \<^verbatim>\<open>diffResult.Deleted\<close>.\<close>

definition delete_body ::
  "KafkaServiceAttributeHandler \<Rightarrow> string \<Rightarrow> int \<Rightarrow> resource \<Rightarrow> Client
   \<Rightarrow> error option exec \<times> Client" where
  "delete_body h serviceID latestVersion resource conn =
     (case resource of
        ROther v \<Rightarrow> (Panic, conn)
      | RMap m \<Rightarrow>
          (case buildDelete h (RMap m) serviceID latestVersion of
             Panic \<Rightarrow> (Panic, conn)
           | Done opts \<Rightarrow>
               (case deleteKafka conn opts of (err, conn') \<Rightarrow> (Done err, conn'))))"

text \<open>
  The body of the loop over \<^verbatim>\<open>diffResult.Added\<close>: a record without the key
  \<^verbatim>\<open>name\<close>, or with the empty name, is passed over.
\<close>

definition create_body ::
  "KafkaServiceAttributeHandler \<Rightarrow> string \<Rightarrow> int \<Rightarrow> resource \<Rightarrow> Client
   \<Rightarrow> error option exec \<times> Client" where
  "create_body h serviceID latestVersion resource conn =
     (case resource of
        ROther v \<Rightarrow> (Panic, conn)
      | RMap m \<Rightarrow>
          (case fmlookup m ''name'' of
             None \<Rightarrow> (Done None, conn)
           | Some v \<Rightarrow>
               (case assert_string v of
                  Panic \<Rightarrow> (Panic, conn)
                | Done name \<Rightarrow>
                    if name = [] then (Done None, conn)
                    else
                      (case buildCreate h (RMap m) serviceID latestVersion of
                         Panic \<Rightarrow> (Panic, conn)
                       | Done opts \<Rightarrow>
                           (case createKafka conn opts of
                              (err, conn') \<Rightarrow> (Done err, conn'))))))"

text \<open>
  The statements \<^verbatim>\<open>if v, ok := modified[k]; ok { opts.X = ... }\<close> of the update loop:
  a field of \<^verbatim>\<open>opts\<close> is assigned when the key is in \<^verbatim>\<open>modified\<close>, after the type
  assertion on the value. \<^verbatim>\<open>uint(v.(int))\<close> keeps the 64 bits.
\<close>

definition if_string ::
  "rmap \<Rightarrow> string \<Rightarrow> (string option \<Rightarrow> UpdateKafkaInput \<Rightarrow> UpdateKafkaInput)
   \<Rightarrow> UpdateKafkaInput \<Rightarrow> UpdateKafkaInput exec" where
  "if_string modified k assign opts =
     (case fmlookup modified k of
        None \<Rightarrow> Done opts
      | Some v \<Rightarrow> exec_bind (assert_string v) (\<lambda>s. Done (assign (Some s) opts)))"

definition if_bool ::
  "rmap \<Rightarrow> string \<Rightarrow> (bool option \<Rightarrow> UpdateKafkaInput \<Rightarrow> UpdateKafkaInput)
   \<Rightarrow> UpdateKafkaInput \<Rightarrow> UpdateKafkaInput exec" where
  "if_bool modified k assign opts =
     (case fmlookup modified k of
        None \<Rightarrow> Done opts
      | Some v \<Rightarrow> exec_bind (assert_bool v) (\<lambda>b. Done (assign (Some b) opts)))"

definition if_uint ::
  "rmap \<Rightarrow> string \<Rightarrow> (64 word option \<Rightarrow> UpdateKafkaInput \<Rightarrow> UpdateKafkaInput)
   \<Rightarrow> UpdateKafkaInput \<Rightarrow> UpdateKafkaInput exec" where
  "if_uint modified k assign opts =
     (case fmlookup modified k of
        None \<Rightarrow> Done opts
      | Some v \<Rightarrow> exec_bind (assert_int v) (\<lambda>i. Done (assign (Some i) opts)))"

definition assignments :: "rmap \<Rightarrow> (UpdateKafkaInput \<Rightarrow> UpdateKafkaInput exec) list" where
  "assignments modified =
     [if_string modified ''brokers'' (\<lambda>p opts. opts\<lparr>UpdateKafkaInput.Brokers := p\<rparr>),
      if_string modified ''topic'' (\<lambda>p opts. opts\<lparr>UpdateKafkaInput.Topic := p\<rparr>),
      if_string modified ''required_acks'' (\<lambda>p opts. opts\<lparr>UpdateKafkaInput.RequiredACKs := p\<rparr>),
      if_bool modified ''use_tls'' (\<lambda>p opts. opts\<lparr>UpdateKafkaInput.UseTLS := p\<rparr>),
      if_string modified ''compression_codec''
        (\<lambda>p opts. opts\<lparr>UpdateKafkaInput.CompressionCodec := p\<rparr>),
      if_string modified ''format'' (\<lambda>p opts. opts\<lparr>UpdateKafkaInput.Format := p\<rparr>),
      if_uint modified ''format_version'' (\<lambda>p opts. opts\<lparr>UpdateKafkaInput.FormatVersion := p\<rparr>),
      if_string modified ''response_condition''
        (\<lambda>p opts. opts\<lparr>UpdateKafkaInput.ResponseCondition := p\<rparr>),
      if_string modified ''placement'' (\<lambda>p opts. opts\<lparr>UpdateKafkaInput.Placement := p\<rparr>),
      if_string modified ''tls_ca_cert'' (\<lambda>p opts. opts\<lparr>UpdateKafkaInput.TLSCACert := p\<rparr>),
      if_string modified ''tls_hostname'' (\<lambda>p opts. opts\<lparr>UpdateKafkaInput.TLSHostname := p\<rparr>),
      if_string modified ''tls_client_cert''
        (\<lambda>p opts. opts\<lparr>UpdateKafkaInput.TLSClientCert := p\<rparr>),
      if_string modified ''tls_client_key'' (\<lambda>p opts. opts\<lparr>UpdateKafkaInput.TLSClientKey := p\<rparr>),
      if_bool modified ''parse_log_keyvals''
        (\<lambda>p opts. opts\<lparr>UpdateKafkaInput.ParseLogKeyvals := p\<rparr>),
      if_uint modified ''request_max_bytes''
        (\<lambda>p opts. opts\<lparr>UpdateKafkaInput.RequestMaxBytes := p\<rparr>),
      if_string modified ''auth_method'' (\<lambda>p opts. opts\<lparr>UpdateKafkaInput.AuthMethod := p\<rparr>),
      if_string modified ''user'' (\<lambda>p opts. opts\<lparr>UpdateKafkaInput.User := p\<rparr>),
      if_string modified ''password'' (\<lambda>p opts. opts\<lparr>UpdateKafkaInput.Password := p\<rparr>)]"

text \<open>
  The update input that the loop over \<^verbatim>\<open>diffResult.Modified\<close> builds for one record:
  the composite literal with the three identifying fields, then the assignments, over the
  result of \<^verbatim>\<open>setDiff.Filter(resource, oldSet)\<close>.
\<close>

definition update_opts ::
  "SetDiff \<Rightarrow> ResourceData \<Rightarrow> int \<Rightarrow> resource list \<Rightarrow> rmap \<Rightarrow> UpdateKafkaInput exec" where
  "update_opts setDiff d latestVersion oldSet resource =
     exec_bind (assert_string (index resource ''name'')) (\<lambda>name.
       exec_seq (assignments (Filter setDiff resource oldSet))
         \<lparr>UpdateKafkaInput.ServiceID = Id d,
          ServiceVersion = latestVersion,
          Name = name,
          Brokers = None, Topic = None, RequiredACKs = None, UseTLS = None,
          CompressionCodec = None, Format = None, FormatVersion = None,
          ResponseCondition = None, Placement = None, TLSCACert = None, TLSHostname = None,
          TLSClientCert = None, TLSClientKey = None, ParseLogKeyvals = None,
          RequestMaxBytes = None, AuthMethod = None, User = None, Password = None\<rparr>)"

definition update_body ::
  "SetDiff \<Rightarrow> ResourceData \<Rightarrow> int \<Rightarrow> resource list \<Rightarrow> resource \<Rightarrow> Client
   \<Rightarrow> error option exec \<times> Client" where
  "update_body setDiff d latestVersion oldSet resource conn =
     (case resource of
        ROther v \<Rightarrow> (Panic, conn)
      | RMap m \<Rightarrow>
          (case update_opts setDiff d latestVersion oldSet m of
             Panic \<Rightarrow> (Panic, conn)
           | Done opts \<Rightarrow>
               (case invoke conn (UpdateKafka opts) of (err, conn') \<Rightarrow> (Done err, conn'))))"

definition Process ::
  "KafkaServiceAttributeHandler \<Rightarrow> ResourceData \<Rightarrow> int \<Rightarrow> Client
   \<Rightarrow> error option exec \<times> Client" where
  "Process h d latestVersion conn =
     (let serviceID = Id d;
          oldSet = (case fst (GetChange d (GetKey h)) of None \<Rightarrow> [] | Some s \<Rightarrow> s);
          newSet = (case snd (GetChange d (GetKey h)) of None \<Rightarrow> [] | Some s \<Rightarrow> s);
          setDiff = NewSetDiff name_key
      in case Diff setDiff oldSet newSet of
           Inl err \<Rightarrow> (Done (Some err), conn)
         | Inr diffResult \<Rightarrow>
             (case range_loop (delete_body h serviceID latestVersion)
                     (Deleted diffResult) conn of
                (Done None, conn1) \<Rightarrow>
                  (case range_loop (create_body h serviceID latestVersion)
                          (Added diffResult) conn1 of
                     (Done None, conn2) \<Rightarrow>
                       range_loop (update_body setDiff d latestVersion oldSet)
                         (Modified diffResult) conn2
                   | (r, conn2) \<Rightarrow> (r, conn2))
              | (r, conn1) \<Rightarrow> (r, conn1)))"

section \<open>Observations on a pass\<close>

text \<open>
  The sets that \<^verbatim>\<open>Process\<close> reconciles, and the calls that a run adds to those the
  client had issued before.
\<close>

definition old_set :: "KafkaServiceAttributeHandler \<Rightarrow> ResourceData \<Rightarrow> resource list" where
  "old_set h d = (case fst (GetChange d (GetKey h)) of None \<Rightarrow> [] | Some s \<Rightarrow> s)"

definition new_set :: "KafkaServiceAttributeHandler \<Rightarrow> ResourceData \<Rightarrow> resource list" where
  "new_set h d = (case snd (GetChange d (GetKey h)) of None \<Rightarrow> [] | Some s \<Rightarrow> s)"

definition new_calls :: "Client \<Rightarrow> Client \<Rightarrow> api_call list" where
  "new_calls conn conn' = drop (length (issued conn)) (issued conn')"

definition is_delete :: "api_call \<Rightarrow> bool" where
  "is_delete c = (case c of DeleteKafka i \<Rightarrow> True | _ \<Rightarrow> False)"

definition is_create :: "api_call \<Rightarrow> bool" where
  "is_create c = (case c of CreateKafka i \<Rightarrow> True | _ \<Rightarrow> False)"

definition is_update :: "api_call \<Rightarrow> bool" where
  "is_update c = (case c of UpdateKafka i \<Rightarrow> True | _ \<Rightarrow> False)"

text \<open>The three fields of a call's input that identify the endpoint.\<close>

definition call_ServiceID :: "api_call \<Rightarrow> string" where
  "call_ServiceID c =
     (case c of
        DeleteKafka i \<Rightarrow> DeleteKafkaInput.ServiceID i
      | CreateKafka i \<Rightarrow> CreateKafkaInput.ServiceID i
      | UpdateKafka i \<Rightarrow> UpdateKafkaInput.ServiceID i)"

definition call_ServiceVersion :: "api_call \<Rightarrow> int" where
  "call_ServiceVersion c =
     (case c of
        DeleteKafka i \<Rightarrow> DeleteKafkaInput.ServiceVersion i
      | CreateKafka i \<Rightarrow> CreateKafkaInput.ServiceVersion i
      | UpdateKafka i \<Rightarrow> UpdateKafkaInput.ServiceVersion i)"

definition call_Name :: "api_call \<Rightarrow> string" where
  "call_Name c =
     (case c of
        DeleteKafka i \<Rightarrow> DeleteKafkaInput.Name i
      | CreateKafka i \<Rightarrow> CreateKafkaInput.Name i
      | UpdateKafka i \<Rightarrow> UpdateKafkaInput.Name i)"

text \<open>
  The optional fields of an update input, each under the key from which \<^verbatim>\<open>Process\<close>
  assigns it, with whether it is set.
\<close>

definition optional_fields :: "UpdateKafkaInput \<Rightarrow> (string \<times> bool) list" where
  "optional_fields opts =
     [(''brokers'', UpdateKafkaInput.Brokers opts \<noteq> None),
      (''topic'', UpdateKafkaInput.Topic opts \<noteq> None),
      (''required_acks'', UpdateKafkaInput.RequiredACKs opts \<noteq> None),
      (''use_tls'', UpdateKafkaInput.UseTLS opts \<noteq> None),
      (''compression_codec'', UpdateKafkaInput.CompressionCodec opts \<noteq> None),
      (''format'', UpdateKafkaInput.Format opts \<noteq> None),
      (''format_version'', UpdateKafkaInput.FormatVersion opts \<noteq> None),
      (''response_condition'', UpdateKafkaInput.ResponseCondition opts \<noteq> None),
      (''placement'', UpdateKafkaInput.Placement opts \<noteq> None),
      (''tls_ca_cert'', UpdateKafkaInput.TLSCACert opts \<noteq> None),
      (''tls_hostname'', UpdateKafkaInput.TLSHostname opts \<noteq> None),
      (''tls_client_cert'', UpdateKafkaInput.TLSClientCert opts \<noteq> None),
      (''tls_client_key'', UpdateKafkaInput.TLSClientKey opts \<noteq> None),
      (''parse_log_keyvals'', UpdateKafkaInput.ParseLogKeyvals opts \<noteq> None),
      (''request_max_bytes'', UpdateKafkaInput.RequestMaxBytes opts \<noteq> None),
      (''auth_method'', UpdateKafkaInput.AuthMethod opts \<noteq> None),
      (''user'', UpdateKafkaInput.User opts \<noteq> None),
      (''password'', UpdateKafkaInput.Password opts \<noteq> None)]"

text \<open>
  The three loop bodies of \<^verbatim>\<open>Process\<close> have one shape: from the record alone they
  either panic, pass the record over, or settle on one call; they issue the call and return
  what is made of the client's answer. \<open>step\<close> is that shape, \<open>delete_call\<close>,
  \<open>create_call\<close> and \<open>update_call\<close> are the call each body settles on, and
  \<open>not_found_ok\<close> is what \<^verbatim>\<open>deleteKafka\<close> makes of the answer. \<open>planned\<close> lists the
  calls a loop settles on when it runs to its end.
\<close>

definition not_found_ok :: "error option \<Rightarrow> error option" where
  "not_found_ok err =
     (case err of
        Some (HTTPError code msg) \<Rightarrow> if code \<noteq> 404 then err else None
      | Some other \<Rightarrow> err
      | None \<Rightarrow> None)"

definition step ::
  "('a \<Rightarrow> api_call option exec) \<Rightarrow> (error option \<Rightarrow> error option) \<Rightarrow> 'a \<Rightarrow> Client
   \<Rightarrow> error option exec \<times> Client" where
  "step call_of post x conn =
     (case call_of x of
        Panic \<Rightarrow> (Panic, conn)
      | Done None \<Rightarrow> (Done None, conn)
      | Done (Some c) \<Rightarrow>
          (Done (post (respond conn (issued conn) c)), conn\<lparr>issued := issued conn @ [c]\<rparr>))"

definition delete_call ::
  "KafkaServiceAttributeHandler \<Rightarrow> string \<Rightarrow> int \<Rightarrow> resource \<Rightarrow> api_call option exec" where
  "delete_call h serviceID latestVersion resource =
     exec_bind (buildDelete h resource serviceID latestVersion)
       (\<lambda>opts. Done (Some (DeleteKafka opts)))"

definition create_call ::
  "KafkaServiceAttributeHandler \<Rightarrow> string \<Rightarrow> int \<Rightarrow> resource \<Rightarrow> api_call option exec" where
  "create_call h serviceID latestVersion resource =
     (case resource of
        ROther v \<Rightarrow> Panic
      | RMap m \<Rightarrow>
          (case fmlookup m ''name'' of
             None \<Rightarrow> Done None
           | Some v \<Rightarrow>
               exec_bind (assert_string v) (\<lambda>name.
                 if name = [] then Done None
                 else exec_bind (buildCreate h resource serviceID latestVersion)
                        (\<lambda>opts. Done (Some (CreateKafka opts))))))"

definition update_call ::
  "SetDiff \<Rightarrow> ResourceData \<Rightarrow> int \<Rightarrow> resource list \<Rightarrow> resource \<Rightarrow> api_call option exec" where
  "update_call setDiff d latestVersion oldSet resource =
     (case resource of
        ROther v \<Rightarrow> Panic
      | RMap m \<Rightarrow>
          exec_bind (update_opts setDiff d latestVersion oldSet m)
            (\<lambda>opts. Done (Some (UpdateKafka opts))))"

definition planned :: "('a \<Rightarrow> api_call option exec) \<Rightarrow> 'a list \<Rightarrow> api_call list" where
  "planned call_of xs =
     List.map_filter (\<lambda>x. case call_of x of Panic \<Rightarrow> None | Done c \<Rightarrow> c) xs"

text \<open>
  \<open>verdict\<close> is what \<^verbatim>\<open>Process\<close> makes of the client's answer to a call: the
  answer to a delete call goes through \<^verbatim>\<open>deleteKafka\<close>, any other answer is taken as
  it is. \<open>fail_fast\<close> says of the calls \<open>tr\<close> issued after the calls \<open>past\<close>: a call
  whose answer is not taken as success is the last one, and its answer is what is returned.
\<close>

definition verdict :: "api_call \<Rightarrow> error option \<Rightarrow> error option" where
  "verdict c err = (if is_delete c then not_found_ok err else err)"

definition fail_fast ::
  "(api_call list \<Rightarrow> api_call \<Rightarrow> error option) \<Rightarrow> api_call list \<Rightarrow> api_call list
   \<Rightarrow> error option exec \<Rightarrow> bool" where
  "fail_fast rsp past tr r =
     (\<forall>j < length tr. verdict (tr ! j) (rsp (past @ take j tr) (tr ! j)) \<noteq> None \<longrightarrow>
        r = Done (verdict (tr ! j) (rsp (past @ take j tr) (tr ! j))) \<and> Suc j = length tr)"

text \<open>
  Two properties of an update input that every assignment of \<^verbatim>\<open>Process\<close> keeps: its
  three identifying fields have given values, and each of its optional fields that is set
  has its key in \<open>modified\<close>.
\<close>

definition identified :: "string \<Rightarrow> int \<Rightarrow> string \<Rightarrow> UpdateKafkaInput \<Rightarrow> bool" where
  "identified sid v name opts \<longleftrightarrow>
     UpdateKafkaInput.ServiceID opts = sid \<and> UpdateKafkaInput.ServiceVersion opts = v
     \<and> UpdateKafkaInput.Name opts = name"

definition set_within :: "rmap \<Rightarrow> UpdateKafkaInput \<Rightarrow> bool" where
  "set_within modified opts \<longleftrightarrow>
     list_all (\<lambda>(k, b). b \<longrightarrow> k |\<in>| fmdom modified) (optional_fields opts)"

text \<open>
  The name of a record: its \<^verbatim>\<open>name\<close> field when that is a string, the empty string
  otherwise. \<open>without d h x\<close> is the resource data \<open>d\<close> with the record \<open>x\<close> taken out of
  the new set.
\<close>

definition name_of :: "resource \<Rightarrow> string" where
  "name_of r =
     (case r of
        RMap m \<Rightarrow> (case index m ''name'' of VString s \<Rightarrow> s | _ \<Rightarrow> [])
      | ROther v \<Rightarrow> [])"

definition without :: "ResourceData \<Rightarrow> KafkaServiceAttributeHandler \<Rightarrow> resource \<Rightarrow> ResourceData" where
  "without d h x =
     d\<lparr>GetChange := (\<lambda>key. (fst (GetChange d key), Some (removeAll x (new_set h d))))\<rparr>"

section \<open>Example data\<close>

text \<open>
  A handler of a service without VCL attributes, a block with every field of the schema, the
  resource data of a change from one set to another, and a client that has issued no call
  yet and answers as given.
\<close>

definition ex_handler :: KafkaServiceAttributeHandler where
  "ex_handler =
     \<lparr>GetKey = ''logging_kafka'',
      getVCLLoggingAttributes =
        (\<lambda>df. Done \<lparr>format = [], formatVersion = None, placement = ''none'',
                     responseCondition = []\<rparr>),
      uintOrDefault = (\<lambda>p. case p of None \<Rightarrow> 0 | Some u \<Rightarrow> u)\<rparr>"

definition ex_block :: "string \<Rightarrow> string \<Rightarrow> rmap" where
  "ex_block name topic = fmap_of_list
     [(''name'', VString name), (''topic'', VString topic), (''brokers'', VString ''b1''),
      (''compression_codec'', VString []), (''required_acks'', VString ''1''),
      (''use_tls'', VBool False), (''tls_ca_cert'', VString []),
      (''tls_client_cert'', VString []), (''tls_client_key'', VString []),
      (''tls_hostname'', VString []), (''parse_log_keyvals'', VBool False),
      (''request_max_bytes'', VInt 0), (''auth_method'', VString []), (''user'', VString []),
      (''password'', VString [])]"

definition ex_data :: "resource list \<Rightarrow> resource list \<Rightarrow> ResourceData" where
  "ex_data oldSet newSet =
     \<lparr>Id = ''svc'',
      GetChange = (\<lambda>key. if key = ''logging_kafka'' then (Some oldSet, Some newSet)
                          else (None, None))\<rparr>"

definition ex_client :: "(api_call list \<Rightarrow> api_call \<Rightarrow> error option) \<Rightarrow> Client" where
  "ex_client answers = \<lparr>respond = answers, issued = []\<rparr>"

text \<open>
  A change of two blocks into two blocks: \<open>a\<close> gets another topic, \<open>b\<close> goes and \<open>c\<close>
  comes; the create and the update input that \<^verbatim>\<open>Process\<close> builds for it.
\<close>

definition ex_old :: "resource list" where
  "ex_old = [RMap (ex_block ''a'' ''t''), RMap (ex_block ''b'' ''t'')]"

definition ex_new :: "resource list" where
  "ex_new = [RMap (ex_block ''a'' ''u''), RMap (ex_block ''c'' ''t'')]"

definition ex_update :: UpdateKafkaInput where
  "ex_update =
     \<lparr>UpdateKafkaInput.ServiceID = ''svc'', ServiceVersion = 3, Name = ''a'',
      Brokers = None, Topic = Some ''u'', RequiredACKs = None, UseTLS = None,
      CompressionCodec = None, Format = None, FormatVersion = None,
      ResponseCondition = None, Placement = None, TLSCACert = None, TLSHostname = None,
      TLSClientCert = None, TLSClientKey = None, ParseLogKeyvals = None,
      RequestMaxBytes = None, AuthMethod = None, User = None, Password = None\<rparr>"

definition ex_create :: CreateKafkaInput where
  "ex_create =
     \<lparr>CreateKafkaInput.ServiceID = ''svc'', ServiceVersion = 3, Name = ''c'',
      Brokers = ''b1'', Topic = ''t'', RequiredACKs = ''1'', UseTLS = False,
      CompressionCodec = [], TLSCACert = [], TLSClientCert = [], TLSClientKey = [],
      TLSHostname = [], Format = [], FormatVersion = 0, Placement = ''none'',
      ResponseCondition = [], ParseLogKeyvals = False, RequestMaxBytes = 0, AuthMethod = [],
      User = [], Password = []\<rparr>"

section \<open>The loops\<close>

lemma exec_bind_simps [simp]:
  "exec_bind Panic f = Panic" "exec_bind (Done x) f = f x"
  by (simp_all add: exec_bind_def)

lemma exec_bind_Done_iff: "exec_bind m f = Done y \<longleftrightarrow> (\<exists>x. m = Done x \<and> f x = Done y)"
  by (cases m) simp_all

lemma delete_body_step:
  "delete_body h serviceID latestVersion = step (delete_call h serviceID latestVersion) not_found_ok"
  by (auto simp: fun_eq_iff delete_body_def step_def delete_call_def deleteKafka_def invoke_def
      not_found_ok_def buildDelete_def
      split: resource.splits exec.splits option.splits error.splits)

lemma create_body_step:
  "create_body h serviceID latestVersion = step (create_call h serviceID latestVersion) id"
  by (auto simp: fun_eq_iff create_body_def step_def create_call_def createKafka_def invoke_def
      split: resource.splits exec.splits option.splits)

lemma update_body_step:
  "update_body setDiff d latestVersion oldSet = step (update_call setDiff d latestVersion oldSet) id"
  by (auto simp: fun_eq_iff update_body_def step_def update_call_def invoke_def
      split: resource.splits exec.splits option.splits)

lemma planned_Nil [simp]: "planned call_of [] = []"
  by (simp add: planned_def)

lemma planned_Cons:
  "planned call_of (x # xs) =
     (case call_of x of Done (Some c) \<Rightarrow> c # planned call_of xs | _ \<Rightarrow> planned call_of xs)"
  by (simp add: planned_def split: exec.splits option.splits)

lemma set_planned: "set (planned call_of xs) = {c. \<exists>x \<in> set xs. call_of x = Done (Some c)}"
  by (induction xs) (auto simp: planned_Cons split: exec.splits option.splits)

lemma range_loop_step:
  "range_loop (step call_of post) xs conn = (r, conn') \<Longrightarrow>
   \<exists>tr rest. conn' = conn\<lparr>issued := issued conn @ tr\<rparr>
     \<and> planned call_of xs = tr @ rest
     \<and> (r = Done None \<longrightarrow> rest = [])
     \<and> (\<forall>j < length tr. post (respond conn (issued conn @ take j tr) (tr ! j)) \<noteq> None \<longrightarrow>
           r = Done (post (respond conn (issued conn @ take j tr) (tr ! j))) \<and> Suc j = length tr)"
proof (induction xs arbitrary: conn)
  case Nil
  then show ?case by auto
next
  case (Cons x xs)
  show ?case
  proof (cases "call_of x")
    case Panic
    then have "step call_of post x conn = (Panic, conn)"
      by (simp add: step_def)
    with Cons.prems have "r = Panic" "conn' = conn"
      by auto
    then show ?thesis
      by (intro exI [of _ "[]"] exI [of _ "planned call_of (x # xs)"]) auto
  next
    case (Done oc)
    show ?thesis
    proof (cases oc)
      case None
      with Done have "step call_of post x conn = (Done None, conn)"
        by (simp add: step_def)
      with Cons.prems have "range_loop (step call_of post) xs conn = (r, conn')"
        by simp
      from Cons.IH [OF this] show ?thesis
        using Done None by (simp add: planned_Cons)
    next
      case (Some c)
      let ?err = "post (respond conn (issued conn) c)"
      let ?conn1 = "conn\<lparr>issued := issued conn @ [c]\<rparr>"
      have st: "step call_of post x conn = (Done ?err, ?conn1)"
        using Done Some by (simp add: step_def)
      show ?thesis
      proof (cases ?err)
        case None
        with st Cons.prems have "range_loop (step call_of post) xs ?conn1 = (r, conn')"
          by simp
        from Cons.IH [OF this] obtain tr rest where
          c': "conn' = ?conn1\<lparr>issued := issued ?conn1 @ tr\<rparr>"
          and pl: "planned call_of xs = tr @ rest"
          and ok: "r = Done None \<longrightarrow> rest = []"
          and ff: "\<forall>j < length tr.
              post (respond ?conn1 (issued ?conn1 @ take j tr) (tr ! j)) \<noteq> None \<longrightarrow>
              r = Done (post (respond ?conn1 (issued ?conn1 @ take j tr) (tr ! j)))
              \<and> Suc j = length tr"
          by blast
        have "\<forall>j < length (c # tr).
              post (respond conn (issued conn @ take j (c # tr)) ((c # tr) ! j)) \<noteq> None \<longrightarrow>
              r = Done (post (respond conn (issued conn @ take j (c # tr)) ((c # tr) ! j)))
              \<and> Suc j = length (c # tr)"
        proof (intro allI impI)
          fix j
          assume j: "j < length (c # tr)"
            and ne: "post (respond conn (issued conn @ take j (c # tr)) ((c # tr) ! j)) \<noteq> None"
          show "r = Done (post (respond conn (issued conn @ take j (c # tr)) ((c # tr) ! j)))
              \<and> Suc j = length (c # tr)"
          proof (cases j)
            case 0
            with ne None show ?thesis by simp
          next
            case (Suc j')
            have e1: "issued conn @ take j (c # tr) = issued conn @ c # take j' tr"
              and e2: "(c # tr) ! j = tr ! j'" and j': "j' < length tr"
              using Suc j by simp_all
            have ff': "post (respond conn (issued conn @ c # take j' tr) (tr ! j')) \<noteq> None \<longrightarrow>
              r = Done (post (respond conn (issued conn @ c # take j' tr) (tr ! j')))
              \<and> Suc j' = length tr"
              using ff [rule_format, OF j'] by simp
            from ne have "post (respond conn (issued conn @ c # take j' tr) (tr ! j')) \<noteq> None"
              unfolding e1 e2 .
            with ff' show ?thesis
              unfolding e1 e2 using Suc by simp
          qed
        qed
        moreover have "conn' = conn\<lparr>issued := issued conn @ (c # tr)\<rparr>"
          using c' by simp
        moreover have "planned call_of (x # xs) = (c # tr) @ rest"
          using pl Done Some by (simp add: planned_Cons)
        ultimately show ?thesis
          using ok by blast
      next
        case (Some e)
        with st Cons.prems have r: "r = Done (Some e)" "conn' = ?conn1"
          by auto
        have "planned call_of (x # xs) = [c] @ planned call_of xs"
          using Done \<open>oc = Some c\<close> by (simp add: planned_Cons)
        moreover have "conn' = conn\<lparr>issued := issued conn @ [c]\<rparr>"
          using r by simp
        moreover have "\<forall>j < length [c].
              post (respond conn (issued conn @ take j [c]) ([c] ! j)) \<noteq> None \<longrightarrow>
              r = Done (post (respond conn (issued conn @ take j [c]) ([c] ! j)))
              \<and> Suc j = length [c]"
          using r Some by simp
        ultimately show ?thesis
          using r by blast
      qed
    qed
  qed
qed

lemma fail_fast_Nil [simp]: "fail_fast rsp past [] r"
  by (simp add: fail_fast_def)

lemma fail_fast_append:
  assumes 1: "fail_fast rsp past tr1 (Done None)"
    and 2: "fail_fast rsp (past @ tr1) tr2 r"
  shows "fail_fast rsp past (tr1 @ tr2) r"
  unfolding fail_fast_def
proof (intro allI impI)
  fix j
  assume j: "j < length (tr1 @ tr2)"
    and ne: "verdict ((tr1 @ tr2) ! j) (rsp (past @ take j (tr1 @ tr2)) ((tr1 @ tr2) ! j)) \<noteq> None"
  show "r = Done (verdict ((tr1 @ tr2) ! j) (rsp (past @ take j (tr1 @ tr2)) ((tr1 @ tr2) ! j)))
      \<and> Suc j = length (tr1 @ tr2)"
  proof (cases "j < length tr1")
    case True
    then have "(tr1 @ tr2) ! j = tr1 ! j" "take j (tr1 @ tr2) = take j tr1"
      by (simp_all add: nth_append)
    with ne 1 True show ?thesis
      by (auto simp: fail_fast_def)
  next
    case False
    define j2 where "j2 = j - length tr1"
    have e: "(tr1 @ tr2) ! j = tr2 ! j2" "past @ take j (tr1 @ tr2) = (past @ tr1) @ take j2 tr2"
      and j2: "j2 < length tr2"
      using False j by (simp_all add: nth_append j2_def)
    from ne have "verdict (tr2 ! j2) (rsp ((past @ tr1) @ take j2 tr2) (tr2 ! j2)) \<noteq> None"
      unfolding e .
    with 2 j2 have "r = Done (verdict (tr2 ! j2) (rsp ((past @ tr1) @ take j2 tr2) (tr2 ! j2)))
        \<and> Suc j2 = length tr2"
      unfolding fail_fast_def by blast
    then show ?thesis
      unfolding e using False by (auto simp: j2_def)
  qed
qed

lemma delete_call_Some:
  "delete_call h sid v x = Done (Some c) \<Longrightarrow>
   \<exists>opts. c = DeleteKafka opts \<and> buildDelete h x sid v = Done opts"
  by (auto simp: delete_call_def exec_bind_Done_iff)

lemma create_call_Some:
  "create_call h sid v x = Done (Some c) \<Longrightarrow>
   \<exists>opts. c = CreateKafka opts \<and> buildCreate h x sid v = Done opts"
  by (cases x)
    (auto simp: create_call_def exec_bind_Done_iff split: option.splits if_splits)

lemma update_call_Some:
  "update_call sd d v old x = Done (Some c) \<Longrightarrow>
   \<exists>opts m. c = UpdateKafka opts \<and> x = RMap m \<and> update_opts sd d v old m = Done opts"
  by (cases x) (auto simp: update_call_def exec_bind_Done_iff)

lemma planned_kind:
  "c \<in> set (planned (delete_call h sid v) xs) \<Longrightarrow> is_delete c"
  "c \<in> set (planned (create_call h sid v) xs) \<Longrightarrow> is_create c"
  "c \<in> set (planned (update_call sd d v old) xs) \<Longrightarrow> is_update c"
  by (auto simp: set_planned is_delete_def is_create_def is_update_def
      dest!: delete_call_Some create_call_Some update_call_Some)

lemma kinds_disjoint: "is_create c \<Longrightarrow> \<not> is_delete c" "is_update c \<Longrightarrow> \<not> is_delete c"
  "is_update c \<Longrightarrow> \<not> is_create c"
  by (auto simp: is_delete_def is_create_def is_update_def split: api_call.splits)

lemma loop_fail_fast:
  assumes "\<forall>c \<in> set (planned call_of xs). verdict c = post"
    and "range_loop (step call_of post) xs conn = (r, conn')"
  shows "\<exists>tr rest. conn' = conn\<lparr>issued := issued conn @ tr\<rparr>
     \<and> planned call_of xs = tr @ rest
     \<and> (r = Done None \<longrightarrow> rest = [])
     \<and> fail_fast (respond conn) (issued conn) tr r"
proof -
  from range_loop_step [OF assms(2)] obtain tr rest where
    c: "conn' = conn\<lparr>issued := issued conn @ tr\<rparr>" and p: "planned call_of xs = tr @ rest"
    and ok: "r = Done None \<longrightarrow> rest = []"
    and ff: "\<forall>j < length tr. post (respond conn (issued conn @ take j tr) (tr ! j)) \<noteq> None \<longrightarrow>
           r = Done (post (respond conn (issued conn @ take j tr) (tr ! j))) \<and> Suc j = length tr"
    by blast
  have "verdict (tr ! j) = post" if "j < length tr" for j
    using assms(1) p that by (metis Un_iff nth_mem set_append)
  with ff have "fail_fast (respond conn) (issued conn) tr r"
    by (simp add: fail_fast_def)
  with c p ok show ?thesis by blast
qed

lemma return_or_go_on:
  "(case rc of (Done None, c) \<Rightarrow> f c | (r, c) \<Rightarrow> (r, c)) =
     (if fst rc = Done None then f (snd rc) else rc)"
  by (cases rc) (simp split: exec.splits option.splits)

lemma Process_unfold:
  "Process h d v conn =
     (case Diff (NewSetDiff name_key) (old_set h d) (new_set h d) of
        Inl err \<Rightarrow> (Done (Some err), conn)
      | Inr dr \<Rightarrow>
          (let rc1 = range_loop (step (delete_call h (Id d) v) not_found_ok) (Deleted dr) conn
           in if fst rc1 = Done None
              then (let rc2 = range_loop (step (create_call h (Id d) v) id) (Added dr) (snd rc1)
                    in if fst rc2 = Done None
                       then range_loop
                              (step (update_call (NewSetDiff name_key) d v (old_set h d)) id)
                              (Modified dr) (snd rc2)
                       else rc2)
              else rc1))"
  unfolding Process_def Let_def old_set_def new_set_def delete_body_step create_body_step
    update_body_step return_or_go_on ..

lemma Process_trace:
  assumes D: "Diff (NewSetDiff name_key) (old_set h d) (new_set h d) = Inr dr"
    and P: "Process h d v conn = (r, conn')"
  shows "\<exists>tr1 tr2 tr3 rest1 rest2 rest3.
      conn' = conn\<lparr>issued := issued conn @ tr1 @ tr2 @ tr3\<rparr>
    \<and> planned (delete_call h (Id d) v) (Deleted dr) = tr1 @ rest1
    \<and> planned (create_call h (Id d) v) (Added dr) = tr2 @ rest2
    \<and> planned (update_call (NewSetDiff name_key) d v (old_set h d)) (Modified dr) = tr3 @ rest3
    \<and> (r = Done None \<longrightarrow> rest1 = [] \<and> rest2 = [] \<and> rest3 = [])
    \<and> fail_fast (respond conn) (issued conn) (tr1 @ tr2 @ tr3) r"
proof -
  let ?del = "delete_call h (Id d) v" and ?cre = "create_call h (Id d) v"
    and ?upd = "update_call (NewSetDiff name_key) d v (old_set h d)"
  have vd: "\<forall>c \<in> set (planned ?del (Deleted dr)). verdict c = not_found_ok"
    by (auto simp: verdict_def fun_eq_iff dest: planned_kind)
  have vc: "\<forall>c \<in> set (planned ?cre (Added dr)). verdict c = id"
    using planned_kind(2) kinds_disjoint(1) by (fastforce simp: verdict_def fun_eq_iff)
  have vu: "\<forall>c \<in> set (planned ?upd (Modified dr)). verdict c = id"
    using planned_kind(3) kinds_disjoint(2) by (fastforce simp: verdict_def fun_eq_iff)
  obtain r1 conn1 where L1: "range_loop (step ?del not_found_ok) (Deleted dr) conn = (r1, conn1)"
    by fastforce
  from loop_fail_fast [OF vd L1] obtain tr1 rest1 where
    c1: "conn1 = conn\<lparr>issued := issued conn @ tr1\<rparr>"
    and p1: "planned ?del (Deleted dr) = tr1 @ rest1"
    and ok1: "r1 = Done None \<longrightarrow> rest1 = []"
    and ff1: "fail_fast (respond conn) (issued conn) tr1 r1"
    by blast
  show ?thesis
  proof (cases "r1 = Done None")
    case False
    then have "Process h d v conn = (r1, conn1)"
      using D L1 by (simp add: Process_unfold)
    with P have "r = r1" "conn' = conn1" by simp_all
    with c1 p1 ff1 False have
      "conn' = conn\<lparr>issued := issued conn @ tr1 @ [] @ []\<rparr>
        \<and> planned ?del (Deleted dr) = tr1 @ rest1
        \<and> planned ?cre (Added dr) = [] @ planned ?cre (Added dr)
        \<and> planned ?upd (Modified dr) = [] @ planned ?upd (Modified dr)
        \<and> (r = Done None \<longrightarrow> rest1 = [] \<and> planned ?cre (Added dr) = [] \<and> planned ?upd (Modified dr) = [])
        \<and> fail_fast (respond conn) (issued conn) (tr1 @ [] @ []) r"
      by simp
    then show ?thesis
      by blast
  next
    case r1: True
    obtain r2 conn2 where L2: "range_loop (step ?cre id) (Added dr) conn1 = (r2, conn2)"
      by fastforce
    from loop_fail_fast [OF vc L2] obtain tr2 rest2 where
      c2: "conn2 = conn1\<lparr>issued := issued conn1 @ tr2\<rparr>"
      and p2: "planned ?cre (Added dr) = tr2 @ rest2"
      and ok2: "r2 = Done None \<longrightarrow> rest2 = []"
      and ff2: "fail_fast (respond conn1) (issued conn1) tr2 r2"
      by blast
    have ff12: "fail_fast (respond conn) (issued conn) (tr1 @ tr2) r2"
    proof (rule fail_fast_append)
      show "fail_fast (respond conn) (issued conn) tr1 (Done None)"
        using ff1 r1 by simp
      show "fail_fast (respond conn) (issued conn @ tr1) tr2 r2"
        using ff2 c1 by simp
    qed
    show ?thesis
    proof (cases "r2 = Done None")
      case False
      then have "Process h d v conn = (r2, conn2)"
        using D L1 L2 r1 by (simp add: Process_unfold)
      with P have "r = r2" "conn' = conn2" by simp_all
      with c1 c2 p1 p2 ff12 False ok1 r1 have
        "conn' = conn\<lparr>issued := issued conn @ tr1 @ tr2 @ []\<rparr>
        \<and> planned ?del (Deleted dr) = tr1 @ rest1
        \<and> planned ?cre (Added dr) = tr2 @ rest2
        \<and> planned ?upd (Modified dr) = [] @ planned ?upd (Modified dr)
        \<and> (r = Done None \<longrightarrow> rest1 = [] \<and> rest2 = [] \<and> planned ?upd (Modified dr) = [])
        \<and> fail_fast (respond conn) (issued conn) (tr1 @ tr2 @ []) r"
        by simp
      then show ?thesis
        by blast
    next
      case r2: True
      obtain r3 conn3 where L3: "range_loop (step ?upd id) (Modified dr) conn2 = (r3, conn3)"
        by fastforce
      from loop_fail_fast [OF vu L3] obtain tr3 rest3 where
        c3: "conn3 = conn2\<lparr>issued := issued conn2 @ tr3\<rparr>"
        and p3: "planned ?upd (Modified dr) = tr3 @ rest3"
        and ok3: "r3 = Done None \<longrightarrow> rest3 = []"
        and ff3: "fail_fast (respond conn2) (issued conn2) tr3 r3"
        by blast
      have "fail_fast (respond conn) (issued conn) ((tr1 @ tr2) @ tr3) r3"
      proof (rule fail_fast_append)
        show "fail_fast (respond conn) (issued conn) (tr1 @ tr2) (Done None)"
          using ff12 r2 by simp
        show "fail_fast (respond conn) (issued conn @ tr1 @ tr2) tr3 r3"
          using ff3 c1 c2 by simp
      qed
      then have ff123: "fail_fast (respond conn) (issued conn) (tr1 @ tr2 @ tr3) r3"
        by simp
      have "Process h d v conn = (r3, conn3)"
        using D L1 L2 L3 r1 r2 by (simp add: Process_unfold)
      with P have "r = r3" "conn' = conn3" by simp_all
      with c1 c2 c3 p1 p2 p3 ff123 ok1 ok2 ok3 r1 r2 have
        "conn' = conn\<lparr>issued := issued conn @ tr1 @ tr2 @ tr3\<rparr>
        \<and> planned ?del (Deleted dr) = tr1 @ rest1
        \<and> planned ?cre (Added dr) = tr2 @ rest2
        \<and> planned ?upd (Modified dr) = tr3 @ rest3
        \<and> (r = Done None \<longrightarrow> rest1 = [] \<and> rest2 = [] \<and> rest3 = [])
        \<and> fail_fast (respond conn) (issued conn) (tr1 @ tr2 @ tr3) r"
        by simp
      then show ?thesis
        by blast
    qed
  qed
qed

section \<open>The diff and the calls of a pass\<close>

lemma extract_keys_fails:
  "x \<in> set xs \<Longrightarrow> keyFunc h x = Inl e0 \<Longrightarrow> \<exists>e. extract_keys h xs = Inl e"
  by (induction xs) (auto split: sum.splits)

lemma extract_keys_Inl:
  "extract_keys h xs = Inl e \<Longrightarrow> \<exists>x \<in> set xs. keyFunc h x = Inl e"
  by (induction xs) (auto split: sum.splits)

lemma Diff_Inl:
  "Diff h oldSet newSet = Inl e \<Longrightarrow> \<exists>x \<in> set oldSet \<union> set newSet. keyFunc h x = Inl e"
  by (auto simp: Diff_def split: sum.splits dest: extract_keys_Inl)

lemma Diff_fails:
  "x \<in> set oldSet \<union> set newSet \<Longrightarrow> keyFunc h x = Inl e0 \<Longrightarrow> \<exists>e. Diff h oldSet newSet = Inl e"
  using extract_keys_fails [of x oldSet h e0] extract_keys_fails [of x newSet h e0]
  by (auto simp: Diff_def split: sum.splits)

lemma Diff_subset:
  "Diff h oldSet newSet = Inr dr \<Longrightarrow>
   set (Added dr) \<subseteq> set newSet \<and> set (Modified dr) \<subseteq> set newSet \<and> set (Deleted dr) \<subseteq> set oldSet"
  by (auto simp: Diff_def split: sum.splits)

lemma Process_Inl:
  "Diff (NewSetDiff name_key) (old_set h d) (new_set h d) = Inl e \<Longrightarrow>
   Process h d v conn = (Done (Some e), conn)"
  by (simp add: Process_unfold)

lemma Process_calls:
  "\<exists>ds cs us rest1 rest2 rest3.
      issued (snd (Process h d v conn)) = issued conn @ ds @ cs @ us
    \<and> (\<forall>dr. Diff (NewSetDiff name_key) (old_set h d) (new_set h d) = Inr dr \<longrightarrow>
         planned (delete_call h (Id d) v) (Deleted dr) = ds @ rest1
       \<and> planned (create_call h (Id d) v) (Added dr) = cs @ rest2
       \<and> planned (update_call (NewSetDiff name_key) d v (old_set h d)) (Modified dr) = us @ rest3)
    \<and> (\<forall>e. Diff (NewSetDiff name_key) (old_set h d) (new_set h d) = Inl e \<longrightarrow>
         ds = [] \<and> cs = [] \<and> us = [])"
proof (cases "Diff (NewSetDiff name_key) (old_set h d) (new_set h d)")
  case (Inl e)
  then have "issued (snd (Process h d v conn)) = issued conn @ [] @ [] @ []"
    by (simp add: Process_Inl)
  with Inl show ?thesis
    by (metis sum.distinct(1))
next
  case (Inr dr)
  from Process_trace [OF Inr surjective_pairing]
  obtain tr1 tr2 tr3 rest1 rest2 rest3 where
    "snd (Process h d v conn) = conn\<lparr>issued := issued conn @ tr1 @ tr2 @ tr3\<rparr>"
    "planned (delete_call h (Id d) v) (Deleted dr) = tr1 @ rest1"
    "planned (create_call h (Id d) v) (Added dr) = tr2 @ rest2"
    "planned (update_call (NewSetDiff name_key) d v (old_set h d)) (Modified dr) = tr3 @ rest3"
    by blast
  then have "issued (snd (Process h d v conn)) = issued conn @ tr1 @ tr2 @ tr3
    \<and> planned (delete_call h (Id d) v) (Deleted dr) = tr1 @ rest1
    \<and> planned (create_call h (Id d) v) (Added dr) = tr2 @ rest2
    \<and> planned (update_call (NewSetDiff name_key) d v (old_set h d)) (Modified dr) = tr3 @ rest3"
    by simp
  with Inr show ?thesis
    by (metis sum.distinct(1) sum.inject(2))
qed

lemma verdict_keeps:
  "\<not> (is_delete c \<and> (\<exists>msg. e = HTTPError 404 msg)) \<Longrightarrow> verdict c (Some e) = Some e"
  by (auto simp: verdict_def not_found_ok_def split: error.splits)

lemma ex_sets [simp]:
  "old_set ex_handler (ex_data oldSet newSet) = oldSet"
  "new_set ex_handler (ex_data oldSet newSet) = newSet"
  by (simp_all add: old_set_def new_set_def ex_handler_def ex_data_def)

lemma ex_pass_result:
  "fst (Process ex_handler (ex_data ex_old ex_new) 3 (ex_client (\<lambda>past c. None))) = Done None"
  by code_simp

lemma ex_pass_calls:
  "new_calls (ex_client (\<lambda>past c. None))
     (snd (Process ex_handler (ex_data ex_old ex_new) 3 (ex_client (\<lambda>past c. None)))) =
   [DeleteKafka \<lparr>DeleteKafkaInput.ServiceID = ''svc'', ServiceVersion = 3, Name = ''b''\<rparr>,
    CreateKafka ex_create, UpdateKafka ex_update]"
  by code_simp


section \<open>The inputs of the calls\<close>

lemma assert_string_Done: "assert_string v = Done s \<longleftrightarrow> v = VString s"
  by (cases v) (simp_all add: assert_string_def)

lemma buildDelete_Done:
  "buildDelete h x sid v = Done opts \<longleftrightarrow>
   (\<exists>m name. x = RMap m \<and> index m ''name'' = VString name
      \<and> opts = \<lparr>DeleteKafkaInput.ServiceID = sid, ServiceVersion = v, Name = name\<rparr>)"
  by (cases x) (auto simp: buildDelete_def exec_bind_Done_iff assert_string_Done)

lemma buildCreate_Done:
  "buildCreate h x sid v = Done opts \<Longrightarrow>
   \<exists>m. x = RMap m \<and> index m ''name'' = VString (CreateKafkaInput.Name opts)
      \<and> CreateKafkaInput.ServiceID opts = sid \<and> CreateKafkaInput.ServiceVersion opts = v"
  by (cases x) (auto simp: buildCreate_def exec_bind_Done_iff assert_string_Done)

lemma exec_seq_invariant:
  "I x \<Longrightarrow> list_all (\<lambda>f. \<forall>a b. I a \<longrightarrow> f a = Done b \<longrightarrow> I b) fs \<Longrightarrow> exec_seq fs x = Done y
   \<Longrightarrow> I y"
  by (induction fs arbitrary: x) (auto split: exec.splits)

lemma if_string_Done:
  "if_string modified k assign opts = Done opts' \<Longrightarrow>
   opts' = opts \<or> (k |\<in>| fmdom modified \<and> (\<exists>s. opts' = assign (Some s) opts))"
  by (auto simp: if_string_def exec_bind_Done_iff split: option.splits intro: fmdomI)

lemma if_bool_Done:
  "if_bool modified k assign opts = Done opts' \<Longrightarrow>
   opts' = opts \<or> (k |\<in>| fmdom modified \<and> (\<exists>s. opts' = assign (Some s) opts))"
  by (auto simp: if_bool_def exec_bind_Done_iff split: option.splits intro: fmdomI)

lemma if_uint_Done:
  "if_uint modified k assign opts = Done opts' \<Longrightarrow>
   opts' = opts \<or> (k |\<in>| fmdom modified \<and> (\<exists>s. opts' = assign (Some s) opts))"
  by (auto simp: if_uint_def exec_bind_Done_iff split: option.splits intro: fmdomI)

lemma if_string_preserves:
  "(\<And>s a. I a \<Longrightarrow> k |\<in>| fmdom modified \<Longrightarrow> I (assign (Some s) a)) \<Longrightarrow>
   \<forall>a b. I a \<longrightarrow> if_string modified k assign a = Done b \<longrightarrow> I b"
  by (auto dest!: if_string_Done)

lemma if_bool_preserves:
  "(\<And>s a. I a \<Longrightarrow> k |\<in>| fmdom modified \<Longrightarrow> I (assign (Some s) a)) \<Longrightarrow>
   \<forall>a b. I a \<longrightarrow> if_bool modified k assign a = Done b \<longrightarrow> I b"
  by (auto dest!: if_bool_Done)

lemma if_uint_preserves:
  "(\<And>s a. I a \<Longrightarrow> k |\<in>| fmdom modified \<Longrightarrow> I (assign (Some s) a)) \<Longrightarrow>
   \<forall>a b. I a \<longrightarrow> if_uint modified k assign a = Done b \<longrightarrow> I b"
  by (auto dest!: if_uint_Done)

lemma assignments_identified:
  "list_all (\<lambda>f. \<forall>a b. identified sid v name a \<longrightarrow> f a = Done b \<longrightarrow> identified sid v name b)
     (assignments modified)"
  unfolding assignments_def list.pred_inject
  by (intro conjI if_string_preserves if_bool_preserves if_uint_preserves)
    (simp_all add: identified_def)

lemma assignments_set_within:
  "list_all (\<lambda>f. \<forall>a b. set_within modified a \<longrightarrow> f a = Done b \<longrightarrow> set_within modified b)
     (assignments modified)"
  unfolding assignments_def list.pred_inject
  by (intro conjI if_string_preserves if_bool_preserves if_uint_preserves)
    (simp_all add: set_within_def optional_fields_def)

lemma update_opts_Done:
  assumes "update_opts sd d v oldSet m = Done opts"
  shows "UpdateKafkaInput.ServiceID opts = Id d \<and> UpdateKafkaInput.ServiceVersion opts = v
    \<and> index m ''name'' = VString (UpdateKafkaInput.Name opts)
    \<and> set_within (Filter sd m oldSet) opts"
proof -
  let ?init = "\<lambda>name. \<lparr>UpdateKafkaInput.ServiceID = Id d,
          ServiceVersion = v,
          Name = name,
          Brokers = None, Topic = None, RequiredACKs = None, UseTLS = None,
          CompressionCodec = None, Format = None, FormatVersion = None,
          ResponseCondition = None, Placement = None, TLSCACert = None, TLSHostname = None,
          TLSClientCert = None, TLSClientKey = None, ParseLogKeyvals = None,
          RequestMaxBytes = None, AuthMethod = None, User = None, Password = None\<rparr>"
  from assms obtain name where n: "index m ''name'' = VString name"
    and s: "exec_seq (assignments (Filter sd m oldSet)) (?init name) = Done opts"
    by (auto simp: update_opts_def exec_bind_Done_iff assert_string_Done)
  have "identified (Id d) v name (?init name)"
    by (simp add: identified_def)
  from exec_seq_invariant [of "identified (Id d) v name", OF this assignments_identified s]
  have 1: "identified (Id d) v name opts" .
  have "set_within (Filter sd m oldSet) (?init name)"
    by (simp add: set_within_def optional_fields_def)
  from exec_seq_invariant [of "set_within (Filter sd m oldSet)", OF this assignments_set_within s]
  have 2: "set_within (Filter sd m oldSet) opts" .
  from 1 2 n show ?thesis
    by (simp add: identified_def)
qed


lemma counterpart_Some:
  "counterpart h oldSet x = Some old \<Longrightarrow> old \<in> set oldSet \<and> keyFunc h old = keyFunc h x"
  by (auto simp: counterpart_def find_Some_iff)

lemma counterpart_name_key:
  assumes "counterpart (NewSetDiff name_key) oldSet (RMap m) = Some x"
  shows "\<exists>old. x = RMap old \<and> RMap old \<in> set oldSet \<and> index old ''name'' = index m ''name''"
proof -
  from counterpart_Some [OF assms] have a: "x \<in> set oldSet" "name_key x = name_key (RMap m)"
    by simp_all
  show ?thesis
  proof (cases x)
    case (RMap old)
    with a show ?thesis by (simp add: name_key_def)
  next
    case (ROther y)
    with a show ?thesis by (simp add: name_key_def)
  qed
qed

lemma Filter_changed:
  assumes "k |\<in>| fmdom (Filter (NewSetDiff name_key) m oldSet)"
  shows "\<exists>old. counterpart (NewSetDiff name_key) oldSet (RMap m) = Some (RMap old)
     \<and> fmlookup old k \<noteq> fmlookup m k"
proof (cases "counterpart (NewSetDiff name_key) oldSet (RMap m)")
  case None
  with assms show ?thesis by (simp add: Filter_def)
next
  case (Some x)
  show ?thesis
  proof (cases x)
    case (RMap old)
    with Some assms have "k |\<in>| fmdom (fmfilter (\<lambda>k. fmlookup old k \<noteq> fmlookup m k) m)"
      by (simp add: Filter_def)
    then have "fmlookup old k \<noteq> fmlookup m k"
      by auto
    with Some RMap show ?thesis by simp
  next
    case (ROther y)
    with Some assms show ?thesis by (simp add: Filter_def)
  qed
qed

lemma Diff_Modified:
  "Diff h oldSet newSet = Inr dr \<Longrightarrow> x \<in> set (Modified dr) \<Longrightarrow>
   x \<in> set newSet \<and> differing h oldSet x"
  by (auto simp: Diff_def split: sum.splits)

lemma Process_call_origin:
  assumes "c \<in> set (new_calls conn (snd (Process h d v conn)))"
  shows "\<exists>dr. Diff (NewSetDiff name_key) (old_set h d) (new_set h d) = Inr dr
    \<and> ((\<exists>x \<in> set (Deleted dr). delete_call h (Id d) v x = Done (Some c))
       \<or> (\<exists>x \<in> set (Added dr). create_call h (Id d) v x = Done (Some c))
       \<or> (\<exists>x \<in> set (Modified dr).
            update_call (NewSetDiff name_key) d v (old_set h d) x = Done (Some c)))"
proof -
  from Process_calls [of h d v conn] obtain ds cs us rest1 rest2 rest3 where
    i: "issued (snd (Process h d v conn)) = issued conn @ ds @ cs @ us"
    and r: "\<forall>dr. Diff (NewSetDiff name_key) (old_set h d) (new_set h d) = Inr dr \<longrightarrow>
         planned (delete_call h (Id d) v) (Deleted dr) = ds @ rest1
       \<and> planned (create_call h (Id d) v) (Added dr) = cs @ rest2
       \<and> planned (update_call (NewSetDiff name_key) d v (old_set h d)) (Modified dr) = us @ rest3"
    and l: "\<forall>e. Diff (NewSetDiff name_key) (old_set h d) (new_set h d) = Inl e \<longrightarrow>
         ds = [] \<and> cs = [] \<and> us = []"
    by blast
  from i assms have c: "c \<in> set ds \<or> c \<in> set cs \<or> c \<in> set us"
    by (auto simp: new_calls_def)
  show ?thesis
  proof (cases "Diff (NewSetDiff name_key) (old_set h d) (new_set h d)")
    case (Inl e)
    with l c show ?thesis by simp
  next
    case (Inr dr)
    with r have p: "planned (delete_call h (Id d) v) (Deleted dr) = ds @ rest1"
      "planned (create_call h (Id d) v) (Added dr) = cs @ rest2"
      "planned (update_call (NewSetDiff name_key) d v (old_set h d)) (Modified dr) = us @ rest3"
      by simp_all
    from c have "c \<in> set (planned (delete_call h (Id d) v) (Deleted dr))
      \<or> c \<in> set (planned (create_call h (Id d) v) (Added dr))
      \<or> c \<in> set (planned (update_call (NewSetDiff name_key) d v (old_set h d)) (Modified dr))"
      unfolding p by auto
    then show ?thesis
      unfolding set_planned using Inr by blast
  qed
qed

text \<open>
  C7: every call that \<^verbatim>\<open>Process\<close> issues carries the service ID of the resource data,
  the service version it was given, and as its name the \<^verbatim>\<open>name\<close> field of a record: of
  a record of the old set for a delete call, of the new set for a create or update call.
  That name is the key which the extractor of \<^verbatim>\<open>Process\<close> yields for the record.
\<close>

theorem calls_identified_by_name:
  assumes "c \<in> set (new_calls conn (snd (Process h d v conn)))"
  shows "call_ServiceID c = Id d \<and> call_ServiceVersion c = v
     \<and> (\<exists>m. index m ''name'' = VString (call_Name c)
           \<and> name_key (RMap m) = Inr (VString (call_Name c))
           \<and> (if is_delete c then RMap m \<in> set (old_set h d) else RMap m \<in> set (new_set h d)))"
proof -
  from Process_call_origin [OF assms] obtain dr where
    D: "Diff (NewSetDiff name_key) (old_set h d) (new_set h d) = Inr dr"
    and o: "(\<exists>x \<in> set (Deleted dr). delete_call h (Id d) v x = Done (Some c))
       \<or> (\<exists>x \<in> set (Added dr). create_call h (Id d) v x = Done (Some c))
       \<or> (\<exists>x \<in> set (Modified dr).
            update_call (NewSetDiff name_key) d v (old_set h d) x = Done (Some c))"
    by blast
  note sub = Diff_subset [OF D]
  from o consider
    (del) x where "x \<in> set (Deleted dr)" "delete_call h (Id d) v x = Done (Some c)"
  | (cre) x where "x \<in> set (Added dr)" "create_call h (Id d) v x = Done (Some c)"
  | (upd) x where "x \<in> set (Modified dr)"
      "update_call (NewSetDiff name_key) d v (old_set h d) x = Done (Some c)"
    by blast
  then show ?thesis
  proof cases
    case del
    from delete_call_Some [OF del(2)] obtain opts where
      "c = DeleteKafka opts" "buildDelete h x (Id d) v = Done opts"
      by blast
    with del(1) sub show ?thesis
      by (auto simp: buildDelete_Done call_ServiceID_def call_ServiceVersion_def call_Name_def
          is_delete_def name_key_def)
  next
    case cre
    from create_call_Some [OF cre(2)] obtain opts where
      c: "c = CreateKafka opts" and "buildCreate h x (Id d) v = Done opts"
      by blast
    from buildCreate_Done [OF this(2)] obtain m where "x = RMap m"
      "index m ''name'' = VString (CreateKafkaInput.Name opts)"
      "CreateKafkaInput.ServiceID opts = Id d" "CreateKafkaInput.ServiceVersion opts = v"
      by blast
    with cre(1) sub c show ?thesis
      by (auto simp: call_ServiceID_def call_ServiceVersion_def call_Name_def
          is_delete_def name_key_def)
  next
    case upd
    from update_call_Some [OF upd(2)] obtain opts m where
      c: "c = UpdateKafka opts" and x: "x = RMap m"
      and "update_opts (NewSetDiff name_key) d v (old_set h d) m = Done opts"
      by blast
    from update_opts_Done [OF this(3)] upd(1) sub c x show ?thesis
      by (auto simp: call_ServiceID_def call_ServiceVersion_def call_Name_def
          is_delete_def name_key_def)
  qed
qed

theorem calls_identified_by_name_witness:
  "call_ServiceID (CreateKafka ex_create) = Id (ex_data ex_old ex_new)
   \<and> call_ServiceVersion (CreateKafka ex_create) = 3
   \<and> (\<exists>m. index m ''name'' = VString (call_Name (CreateKafka ex_create))
         \<and> name_key (RMap m) = Inr (VString (call_Name (CreateKafka ex_create)))
         \<and> (if is_delete (CreateKafka ex_create)
             then RMap m \<in> set (old_set ex_handler (ex_data ex_old ex_new))
             else RMap m \<in> set (new_set ex_handler (ex_data ex_old ex_new))))"
proof -
  have "CreateKafka ex_create \<in> set (new_calls (ex_client (\<lambda>past c. None))
     (snd (Process ex_handler (ex_data ex_old ex_new) 3 (ex_client (\<lambda>past c. None)))))"
    unfolding ex_pass_calls by simp
  from calls_identified_by_name [OF this] show ?thesis .
qed


text \<open>
  C6: an update call of \<^verbatim>\<open>Process\<close> is for a record of the new set that differs from
  its old counterpart of the same name. Its input carries the service ID, the service
  version and the record's name, and each of its optional fields that is set is under a key
  that \<^verbatim>\<open>Filter\<close> selected, at which the old and the new record differ; every other
  optional field is unset.
\<close>

theorem update_sets_only_changed_fields:
  assumes "UpdateKafka opts \<in> set (new_calls conn (snd (Process h d v conn)))"
  shows "\<exists>m old. RMap m \<in> set (new_set h d) \<and> RMap old \<in> set (old_set h d)
     \<and> counterpart (NewSetDiff name_key) (old_set h d) (RMap m) = Some (RMap old)
     \<and> index old ''name'' = index m ''name'' \<and> old \<noteq> m
     \<and> UpdateKafkaInput.ServiceID opts = Id d \<and> UpdateKafkaInput.ServiceVersion opts = v
     \<and> index m ''name'' = VString (UpdateKafkaInput.Name opts)
     \<and> (\<forall>k. (k, True) \<in> set (optional_fields opts) \<longrightarrow>
           k |\<in>| fmdom (Filter (NewSetDiff name_key) m (old_set h d))
           \<and> fmlookup old k \<noteq> fmlookup m k)"
proof -
  let ?sd = "NewSetDiff name_key"
  from Process_call_origin [OF assms] obtain dr where
    D: "Diff ?sd (old_set h d) (new_set h d) = Inr dr"
    and o: "(\<exists>x \<in> set (Deleted dr). delete_call h (Id d) v x = Done (Some (UpdateKafka opts)))
       \<or> (\<exists>x \<in> set (Added dr). create_call h (Id d) v x = Done (Some (UpdateKafka opts)))
       \<or> (\<exists>x \<in> set (Modified dr).
            update_call ?sd d v (old_set h d) x = Done (Some (UpdateKafka opts)))"
    by blast
  have "delete_call h (Id d) v x \<noteq> Done (Some (UpdateKafka opts))" for x
    using delete_call_Some [of h "Id d" v x "UpdateKafka opts"] by auto
  moreover have "create_call h (Id d) v x \<noteq> Done (Some (UpdateKafka opts))" for x
    using create_call_Some [of h "Id d" v x "UpdateKafka opts"] by auto
  ultimately obtain x where x: "x \<in> set (Modified dr)"
    and u: "update_call ?sd d v (old_set h d) x = Done (Some (UpdateKafka opts))"
    using o by blast
  from update_call_Some [OF u] obtain m where m: "x = RMap m"
    and uo: "update_opts ?sd d v (old_set h d) m = Done opts"
    by auto
  from Diff_Modified [OF D x] m have new: "RMap m \<in> set (new_set h d)"
    and df: "differing ?sd (old_set h d) (RMap m)"
    by simp_all
  from df obtain y where cp: "counterpart ?sd (old_set h d) (RMap m) = Some y" and ne: "y \<noteq> RMap m"
    by (auto simp: differing_def split: option.splits)
  from counterpart_name_key [OF cp] obtain old where old: "y = RMap old"
    "RMap old \<in> set (old_set h d)" "index old ''name'' = index m ''name''"
    by blast
  from update_opts_Done [OF uo] have id: "UpdateKafkaInput.ServiceID opts = Id d"
    "UpdateKafkaInput.ServiceVersion opts = v"
    "index m ''name'' = VString (UpdateKafkaInput.Name opts)"
    and sw: "set_within (Filter ?sd m (old_set h d)) opts"
    by simp_all
  have ch: "k |\<in>| fmdom (Filter ?sd m (old_set h d)) \<and> fmlookup old k \<noteq> fmlookup m k"
    if "(k, True) \<in> set (optional_fields opts)" for k
  proof -
    from sw that have k: "k |\<in>| fmdom (Filter ?sd m (old_set h d))"
      by (auto simp: set_within_def list_all_iff)
    from Filter_changed [OF k] cp old(1) show ?thesis
      using k by simp
  qed
  have "RMap m \<in> set (new_set h d) \<and> RMap old \<in> set (old_set h d)
     \<and> counterpart ?sd (old_set h d) (RMap m) = Some (RMap old)
     \<and> index old ''name'' = index m ''name'' \<and> old \<noteq> m
     \<and> UpdateKafkaInput.ServiceID opts = Id d \<and> UpdateKafkaInput.ServiceVersion opts = v
     \<and> index m ''name'' = VString (UpdateKafkaInput.Name opts)
     \<and> (\<forall>k. (k, True) \<in> set (optional_fields opts) \<longrightarrow>
           k |\<in>| fmdom (Filter ?sd m (old_set h d))
           \<and> fmlookup old k \<noteq> fmlookup m k)"
    using new old cp ne id ch by simp
  then show ?thesis
    by (intro exI [of _ m] exI [of _ old])
qed


theorem update_sets_only_changed_fields_witness:
  "\<exists>m old. RMap m \<in> set (new_set ex_handler (ex_data ex_old ex_new))
     \<and> RMap old \<in> set (old_set ex_handler (ex_data ex_old ex_new))
     \<and> counterpart (NewSetDiff name_key) (old_set ex_handler (ex_data ex_old ex_new)) (RMap m)
         = Some (RMap old)
     \<and> index old ''name'' = index m ''name'' \<and> old \<noteq> m
     \<and> UpdateKafkaInput.ServiceID ex_update = Id (ex_data ex_old ex_new)
     \<and> UpdateKafkaInput.ServiceVersion ex_update = 3
     \<and> index m ''name'' = VString (UpdateKafkaInput.Name ex_update)
     \<and> (\<forall>k. (k, True) \<in> set (optional_fields ex_update) \<longrightarrow>
           k |\<in>| fmdom (Filter (NewSetDiff name_key) m
                          (old_set ex_handler (ex_data ex_old ex_new)))
           \<and> fmlookup old k \<noteq> fmlookup m k)"
proof -
  have "UpdateKafka ex_update \<in> set (new_calls (ex_client (\<lambda>past c. None))
     (snd (Process ex_handler (ex_data ex_old ex_new) 3 (ex_client (\<lambda>past c. None)))))"
    unfolding ex_pass_calls by simp
  from update_sets_only_changed_fields [OF this] show ?thesis .
qed


section \<open>Failed key extraction\<close>

text \<open>
  C5: when some record of the old or of the new set is not a map from strings to values,
  the key extractor of \<^verbatim>\<open>Process\<close> fails on it, \<^verbatim>\<open>Diff\<close> returns the extractor's
  error, and \<^verbatim>\<open>Process\<close> returns that error with the client as it was: no call is
  issued.
\<close>

theorem Process_aborts_on_failed_extraction:
  assumes "ROther x \<in> set (old_set h d) \<union> set (new_set h d)"
  shows "\<exists>e y. Diff (NewSetDiff name_key) (old_set h d) (new_set h d) = Inl e
     \<and> e = Errorf ''resource failed to be type asserted: %+v'' (ROther y)
     \<and> Process h d v conn = (Done (Some e), conn)
     \<and> new_calls conn (snd (Process h d v conn)) = []"
proof -
  have "keyFunc (NewSetDiff name_key) (ROther x)
      = Inl (Errorf ''resource failed to be type asserted: %+v'' (ROther x))"
    by (simp add: name_key_def)
  from Diff_fails [OF assms this] obtain e where
    e: "Diff (NewSetDiff name_key) (old_set h d) (new_set h d) = Inl e"
    by blast
  from Diff_Inl [OF this] obtain z where "name_key z = Inl e"
    by auto
  then obtain y where "e = Errorf ''resource failed to be type asserted: %+v'' (ROther y)"
    by (cases z) (auto simp: name_key_def)
  with e Process_Inl [OF e] show ?thesis
    by (simp add: new_calls_def)
qed

theorem Process_aborts_on_failed_extraction_witness:
  "Process ex_handler (ex_data [RMap (ex_block ''a'' ''t'')] [ROther (VString ''a'')]) 3
     (ex_client (\<lambda>past c. None))
   = (Done (Some (Errorf ''resource failed to be type asserted: %+v'' (ROther (VString ''a'')))),
      ex_client (\<lambda>past c. None))"
  using Process_aborts_on_failed_extraction [of "VString ''a''" ex_handler
      "ex_data [RMap (ex_block ''a'' ''t'')] [ROther (VString ''a'')]" 3
      "ex_client (\<lambda>past c. None)"]
  by (auto simp: Diff_def name_key_def)


section \<open>API errors\<close>

text \<open>
  C4: when the client answers a call of \<^verbatim>\<open>Process\<close> with an error, and the call is
  not a delete call answered with an HTTP error of status 404, \<^verbatim>\<open>Process\<close> returns
  that same error and the call is the last one it issues.
\<close>

theorem api_error_returned_unchanged:
  assumes P: "Process h d v conn = (r, conn')"
    and j: "j < length (new_calls conn conn')"
    and e: "respond conn (issued conn @ take j (new_calls conn conn')) (new_calls conn conn' ! j)
        = Some e"
    and n: "\<not> (is_delete (new_calls conn conn' ! j) \<and> (\<exists>msg. e = HTTPError 404 msg))"
  shows "issued conn' = issued conn @ new_calls conn conn'
     \<and> r = Done (Some e) \<and> Suc j = length (new_calls conn conn')"
proof (cases "Diff (NewSetDiff name_key) (old_set h d) (new_set h d)")
  case (Inl err)
  with P j show ?thesis
    by (simp add: Process_Inl new_calls_def)
next
  case (Inr dr)
  from Process_trace [OF Inr P] obtain tr where
    c: "conn' = conn\<lparr>issued := issued conn @ tr\<rparr>"
    and ff: "fail_fast (respond conn) (issued conn) tr r"
    by blast
  from c have tr: "new_calls conn conn' = tr"
    by (simp add: new_calls_def)
  from verdict_keeps [OF n] e
  have "verdict (tr ! j) (respond conn (issued conn @ take j tr) (tr ! j)) = Some e"
    by (simp add: tr)
  with ff j have "r = Done (Some e) \<and> Suc j = length tr"
    by (auto simp: fail_fast_def tr)
  with c tr show ?thesis by simp
qed


lemma ex_failing_deletes:
  "Process ex_handler (ex_data [RMap (ex_block ''a'' ''t''), RMap (ex_block ''b'' ''t'')] []) 3
     (ex_client (\<lambda>past c. Some (HTTPError 500 ''boom'')))
   = (Done (Some (HTTPError 500 ''boom'')),
      \<lparr>respond = (\<lambda>past c. Some (HTTPError 500 ''boom'')),
       issued = [DeleteKafka \<lparr>DeleteKafkaInput.ServiceID = ''svc'', ServiceVersion = 3,
                   Name = ''a''\<rparr>]\<rparr>)"
  by (simp add: Process_def ex_handler_def ex_data_def ex_client_def ex_block_def Diff_def
      name_key_def has_key_def index_def delete_body_def buildDelete_def assert_string_def
      deleteKafka_def invoke_def)

theorem api_error_returned_unchanged_witness:
  "Process ex_handler (ex_data [RMap (ex_block ''a'' ''t''), RMap (ex_block ''b'' ''t'')] []) 3
     (ex_client (\<lambda>past c. Some (HTTPError 500 ''boom'')))
   = (Done (Some (HTTPError 500 ''boom'')),
      \<lparr>respond = (\<lambda>past c. Some (HTTPError 500 ''boom'')),
       issued = [DeleteKafka \<lparr>DeleteKafkaInput.ServiceID = ''svc'', ServiceVersion = 3,
                   Name = ''a''\<rparr>]\<rparr>)
   \<and> Suc 0 = length (new_calls (ex_client (\<lambda>past c. Some (HTTPError 500 ''boom'')))
        \<lparr>respond = (\<lambda>past c. Some (HTTPError 500 ''boom'')),
         issued = [DeleteKafka \<lparr>DeleteKafkaInput.ServiceID = ''svc'', ServiceVersion = 3,
                     Name = ''a''\<rparr>]\<rparr>)"
  using api_error_returned_unchanged [OF ex_failing_deletes, of 0 "HTTPError 500 ''boom''"]
    ex_failing_deletes
  by (simp add: new_calls_def ex_client_def is_delete_def)


section \<open>The calls of a successful pass\<close>

lemma range_loop_no_panic:
  "range_loop (step call_of post) xs conn = (Done None, conn') \<Longrightarrow>
   x \<in> set xs \<Longrightarrow> call_of x \<noteq> Panic"
proof (induction xs arbitrary: conn)
  case Nil
  then show ?case by simp
next
  case (Cons y ys)
  obtain r1 conn1 where s: "step call_of post y conn = (r1, conn1)"
    by (cases "step call_of post y conn")
  with Cons.prems(1) have r1: "r1 = Done None"
    and l: "range_loop (step call_of post) ys conn1 = (Done None, conn')"
    by (auto split: exec.splits option.splits)
  from s r1 have "call_of y \<noteq> Panic"
    by (auto simp: step_def)
  with Cons.IH [OF l] Cons.prems(2) show ?case
    by auto
qed

lemma Process_success:
  assumes P: "Process h d v conn = (Done None, conn')"
  shows "\<exists>dr. Diff (NewSetDiff name_key) (old_set h d) (new_set h d) = Inr dr
    \<and> issued conn' = issued conn @ planned (delete_call h (Id d) v) (Deleted dr)
         @ planned (create_call h (Id d) v) (Added dr)
         @ planned (update_call (NewSetDiff name_key) d v (old_set h d)) (Modified dr)
    \<and> (\<forall>x \<in> set (Deleted dr). delete_call h (Id d) v x \<noteq> Panic)
    \<and> (\<forall>x \<in> set (Added dr). create_call h (Id d) v x \<noteq> Panic)
    \<and> (\<forall>x \<in> set (Modified dr).
          update_call (NewSetDiff name_key) d v (old_set h d) x \<noteq> Panic)"
proof (cases "Diff (NewSetDiff name_key) (old_set h d) (new_set h d)")
  case (Inl e)
  with P show ?thesis
    by (simp add: Process_Inl)
next
  case (Inr dr)
  let ?del = "delete_call h (Id d) v" and ?cre = "create_call h (Id d) v"
    and ?upd = "update_call (NewSetDiff name_key) d v (old_set h d)"
  from Process_trace [OF Inr P] have
    i: "issued conn' = issued conn @ planned ?del (Deleted dr) @ planned ?cre (Added dr)
         @ planned ?upd (Modified dr)"
    by auto
  obtain r1 conn1 where L1: "range_loop (step ?del not_found_ok) (Deleted dr) conn = (r1, conn1)"
    by (cases "range_loop (step ?del not_found_ok) (Deleted dr) conn")
  obtain r2 conn2 where L2: "range_loop (step ?cre id) (Added dr) conn1 = (r2, conn2)"
    by (cases "range_loop (step ?cre id) (Added dr) conn1")
  have r1: "r1 = Done None"
    using P Inr L1 by (auto simp: Process_unfold Let_def split: if_splits)
  have r2: "r2 = Done None"
    using P Inr L1 L2 r1 by (auto simp: Process_unfold Let_def split: if_splits)
  have L3: "range_loop (step ?upd id) (Modified dr) conn2 = (Done None, conn')"
    using P Inr L1 L2 r1 r2 by (simp add: Process_unfold Let_def)
  have "\<forall>x \<in> set (Deleted dr). ?del x \<noteq> Panic"
    using range_loop_no_panic [OF L1 [unfolded r1]] by blast
  moreover have "\<forall>x \<in> set (Added dr). ?cre x \<noteq> Panic"
    using range_loop_no_panic [OF L2 [unfolded r2]] by blast
  moreover have "\<forall>x \<in> set (Modified dr). ?upd x \<noteq> Panic"
    using range_loop_no_panic [OF L3] by blast
  ultimately show ?thesis
    using Inr i by simp
qed

lemma name_of_RMap: "index m ''name'' = VString s \<Longrightarrow> name_of (RMap m) = s"
  by (simp add: name_of_def)

lemma delete_call_cases:
  "delete_call h sid v x = Panic
   \<or> delete_call h sid v x = Done (Some (DeleteKafka
        \<lparr>DeleteKafkaInput.ServiceID = sid, ServiceVersion = v, Name = name_of x\<rparr>))"
proof (cases "buildDelete h x sid v")
  case Panic
  then show ?thesis by (simp add: delete_call_def)
next
  case (Done opts)
  from Done [unfolded buildDelete_Done] obtain m name where
    "x = RMap m" "index m ''name'' = VString name"
    "opts = \<lparr>DeleteKafkaInput.ServiceID = sid, ServiceVersion = v, Name = name\<rparr>"
    by blast
  with Done show ?thesis
    by (simp add: delete_call_def name_of_RMap)
qed

lemma planned_delete:
  "\<forall>x \<in> set xs. delete_call h sid v x \<noteq> Panic \<Longrightarrow>
   planned (delete_call h sid v) xs =
     map (\<lambda>r. DeleteKafka \<lparr>DeleteKafkaInput.ServiceID = sid, ServiceVersion = v,
                 Name = name_of r\<rparr>) xs"
proof (induction xs)
  case Nil
  then show ?case by simp
next
  case (Cons x xs)
  with delete_call_cases [of h sid v x] show ?case
    by (simp add: planned_Cons)
qed

lemma create_call_cases:
  "create_call h sid v x = Panic
   \<or> (create_call h sid v x = Done None \<and> name_of x = [])
   \<or> (\<exists>opts. create_call h sid v x = Done (Some (CreateKafka opts))
        \<and> CreateKafkaInput.Name opts = name_of x \<and> name_of x \<noteq> [])"
proof (cases x)
  case (ROther y)
  then show ?thesis by (simp add: create_call_def)
next
  case (RMap m)
  show ?thesis
  proof (cases "fmlookup m ''name''")
    case None
    with RMap show ?thesis by (simp add: create_call_def name_of_def index_def)
  next
    case (Some val)
    show ?thesis
    proof (cases val)
      case (VString s)
      show ?thesis
      proof (cases "s = []")
        case True
        with RMap Some VString show ?thesis
          by (simp add: create_call_def name_of_def index_def assert_string_def)
      next
        case False
        show ?thesis
        proof (cases "buildCreate h x sid v")
          case Panic
          with RMap Some VString False show ?thesis
            by (simp add: create_call_def assert_string_def)
        next
          case (Done opts)
          from buildCreate_Done [OF Done] RMap Some VString
          have "CreateKafkaInput.Name opts = s"
            by (simp add: index_def)
          with RMap Some VString False Done show ?thesis
            by (simp add: create_call_def assert_string_def name_of_def index_def)
        qed
      qed
    qed (use RMap Some in \<open>simp_all add: create_call_def assert_string_def\<close>)
  qed
qed

lemma planned_create:
  "\<forall>x \<in> set xs. create_call h sid v x \<noteq> Panic \<Longrightarrow>
   map call_Name (planned (create_call h sid v) xs) =
     map name_of (filter (\<lambda>r. name_of r \<noteq> []) xs)"
proof (induction xs)
  case Nil
  then show ?case by simp
next
  case (Cons x xs)
  with create_call_cases [of h sid v x] show ?case
    by (auto simp: planned_Cons call_Name_def)
qed

lemma update_call_cases:
  "update_call sd d v old x = Panic
   \<or> (\<exists>opts. update_call sd d v old x = Done (Some (UpdateKafka opts))
        \<and> UpdateKafkaInput.Name opts = name_of x)"
proof (cases x)
  case (ROther y)
  then show ?thesis by (simp add: update_call_def)
next
  case (RMap m)
  show ?thesis
  proof (cases "update_opts sd d v old m")
    case Panic
    with RMap show ?thesis by (simp add: update_call_def)
  next
    case (Done opts)
    from update_opts_Done [OF Done] have "name_of x = UpdateKafkaInput.Name opts"
      using RMap by (simp add: name_of_def)
    with RMap Done show ?thesis by (simp add: update_call_def)
  qed
qed

lemma planned_update:
  "\<forall>x \<in> set xs. update_call sd d v old x \<noteq> Panic \<Longrightarrow>
   map call_Name (planned (update_call sd d v old) xs) = map name_of xs"
proof (induction xs)
  case Nil
  then show ?case by simp
next
  case (Cons x xs)
  with update_call_cases [of sd d v old x] show ?case
    by (auto simp: planned_Cons call_Name_def)
qed

lemma Diff_Inr:
  "Diff h oldSet newSet = Inr dr \<Longrightarrow>
   Added dr = filter (\<lambda>elem. \<not> has_key h oldSet elem) newSet
   \<and> Modified dr = filter (differing h oldSet) newSet
   \<and> Deleted dr = filter (\<lambda>elem. \<not> has_key h newSet elem) oldSet"
  by (auto simp: Diff_def split: sum.splits)

text \<open>
  C1, as the code has it: when \<^verbatim>\<open>Process\<close> returns nil, the calls it has issued are a
  delete call for each record of the old set whose name no record of the new set has, then
  a create call for each record of the new set whose name no record of the old set has and
  whose name is present and not empty, then an update call for each record of the new set
  that differs from its old counterpart of the same name; one call for each such record,
  under the record's name.
\<close>

theorem successful_pass_calls:
  assumes "Process h d v conn = (Done None, conn')"
  shows "\<exists>ds cs us. issued conn' = issued conn @ ds @ cs @ us
     \<and> ds = map (\<lambda>r. DeleteKafka \<lparr>DeleteKafkaInput.ServiceID = Id d, ServiceVersion = v,
                       Name = name_of r\<rparr>)
            (filter (\<lambda>r. \<not> has_key (NewSetDiff name_key) (new_set h d) r) (old_set h d))
     \<and> list_all is_create cs
     \<and> map call_Name cs = map name_of
          (filter (\<lambda>r. \<not> has_key (NewSetDiff name_key) (old_set h d) r \<and> name_of r \<noteq> [])
             (new_set h d))
     \<and> list_all is_update us
     \<and> map call_Name us = map name_of
          (filter (differing (NewSetDiff name_key) (old_set h d)) (new_set h d))"
proof -
  let ?del = "delete_call h (Id d) v" and ?cre = "create_call h (Id d) v"
    and ?upd = "update_call (NewSetDiff name_key) d v (old_set h d)"
  from Process_success [OF assms] obtain dr where
    D: "Diff (NewSetDiff name_key) (old_set h d) (new_set h d) = Inr dr"
    and i: "issued conn' = issued conn @ planned ?del (Deleted dr) @ planned ?cre (Added dr)
         @ planned ?upd (Modified dr)"
    and np: "\<forall>x \<in> set (Deleted dr). ?del x \<noteq> Panic" "\<forall>x \<in> set (Added dr). ?cre x \<noteq> Panic"
      "\<forall>x \<in> set (Modified dr). ?upd x \<noteq> Panic"
    by blast
  note parts = Diff_Inr [OF D]
  have 1: "planned ?del (Deleted dr) =
      map (\<lambda>r. DeleteKafka \<lparr>DeleteKafkaInput.ServiceID = Id d, ServiceVersion = v,
                       Name = name_of r\<rparr>)
        (filter (\<lambda>r. \<not> has_key (NewSetDiff name_key) (new_set h d) r) (old_set h d))"
    using planned_delete [OF np(1)] parts by simp
  have 2: "map call_Name (planned ?cre (Added dr)) = map name_of
          (filter (\<lambda>r. \<not> has_key (NewSetDiff name_key) (old_set h d) r \<and> name_of r \<noteq> [])
             (new_set h d))"
    using planned_create [OF np(2)] parts by simp
  have 3: "map call_Name (planned ?upd (Modified dr)) = map name_of
          (filter (differing (NewSetDiff name_key) (old_set h d)) (new_set h d))"
    using planned_update [OF np(3)] parts by simp
  have 4: "list_all is_create (planned ?cre (Added dr))"
    "list_all is_update (planned ?upd (Modified dr))"
    using planned_kind(2,3) by (auto simp: list_all_iff)
  from i 1 2 3 4 show ?thesis
    by blast
qed

theorem successful_pass_calls_witness:
  "\<exists>ds cs us.
     issued (snd (Process ex_handler (ex_data ex_old ex_new) 3 (ex_client (\<lambda>past c. None))))
       = issued (ex_client (\<lambda>past c. None)) @ ds @ cs @ us
     \<and> ds = [DeleteKafka \<lparr>DeleteKafkaInput.ServiceID = ''svc'', ServiceVersion = 3,
                Name = ''b''\<rparr>]
     \<and> list_all is_create cs \<and> map call_Name cs = [''c'']
     \<and> list_all is_update us \<and> map call_Name us = [''a'']"
proof -
  let ?h = ex_handler and ?d = "ex_data ex_old ex_new"
  have P: "Process ?h ?d 3 (ex_client (\<lambda>past c. None))
      = (Done None, snd (Process ?h ?d 3 (ex_client (\<lambda>past c. None))))"
    using ex_pass_result by (simp add: prod_eq_iff)
  have 1: "map (\<lambda>r. DeleteKafka \<lparr>DeleteKafkaInput.ServiceID = Id ?d, ServiceVersion = 3,
                       Name = name_of r\<rparr>)
            (filter (\<lambda>r. \<not> has_key (NewSetDiff name_key) (new_set ?h ?d) r) (old_set ?h ?d))
      = [DeleteKafka \<lparr>DeleteKafkaInput.ServiceID = ''svc'', ServiceVersion = 3, Name = ''b''\<rparr>]"
    by code_simp
  have 2: "map name_of
          (filter (\<lambda>r. \<not> has_key (NewSetDiff name_key) (old_set ?h ?d) r \<and> name_of r \<noteq> [])
             (new_set ?h ?d)) = [''c'']"
    by code_simp
  have 3: "map name_of
          (filter (differing (NewSetDiff name_key) (old_set ?h ?d)) (new_set ?h ?d)) = [''a'']"
    by code_simp
  from successful_pass_calls [OF P] show ?thesis
    unfolding 1 2 3 .
qed


text \<open>
  C1 as stated fails: a record with the empty name is present in the new set and absent
  from the old set, \<^verbatim>\<open>Process\<close> returns nil, and no call is issued for it.
\<close>

theorem create_for_every_added_record_counterexample:
  "filter (\<lambda>r. \<not> has_key (NewSetDiff name_key)
                 (old_set ex_handler (ex_data [] [RMap (ex_block [] ''t'')])) r)
     (new_set ex_handler (ex_data [] [RMap (ex_block [] ''t'')])) = [RMap (ex_block [] ''t'')]
   \<and> fst (Process ex_handler (ex_data [] [RMap (ex_block [] ''t'')]) 3
          (ex_client (\<lambda>past c. None))) = Done None
   \<and> new_calls (ex_client (\<lambda>past c. None))
        (snd (Process ex_handler (ex_data [] [RMap (ex_block [] ''t'')]) 3
               (ex_client (\<lambda>past c. None)))) = []"
  by code_simp


section \<open>The order of the calls\<close>

lemma Process_phases:
  assumes D: "Diff (NewSetDiff name_key) (old_set h d) (new_set h d) = Inr dr"
  shows "\<exists>tr1 tr2 tr3.
      issued (snd (Process h d v conn)) = issued conn @ tr1 @ tr2 @ tr3
    \<and> list_all is_delete tr1 \<and> list_all is_create tr2 \<and> list_all is_update tr3
    \<and> (tr2 @ tr3 \<noteq> [] \<longrightarrow> tr1 = planned (delete_call h (Id d) v) (Deleted dr)
          \<and> (\<forall>x \<in> set (Deleted dr). delete_call h (Id d) v x \<noteq> Panic))
    \<and> (tr3 \<noteq> [] \<longrightarrow> tr2 = planned (create_call h (Id d) v) (Added dr)
          \<and> (\<forall>x \<in> set (Added dr). create_call h (Id d) v x \<noteq> Panic))"
proof -
  let ?del = "delete_call h (Id d) v" and ?cre = "create_call h (Id d) v"
    and ?upd = "update_call (NewSetDiff name_key) d v (old_set h d)"
  obtain r1 conn1 where L1: "range_loop (step ?del not_found_ok) (Deleted dr) conn = (r1, conn1)"
    by (cases "range_loop (step ?del not_found_ok) (Deleted dr) conn")
  obtain r2 conn2 where L2: "range_loop (step ?cre id) (Added dr) conn1 = (r2, conn2)"
    by (cases "range_loop (step ?cre id) (Added dr) conn1")
  obtain r3 conn3 where L3: "range_loop (step ?upd id) (Modified dr) conn2 = (r3, conn3)"
    by (cases "range_loop (step ?upd id) (Modified dr) conn2")
  from range_loop_step [OF L1] obtain tr1 rest1 where
    c1: "conn1 = conn\<lparr>issued := issued conn @ tr1\<rparr>"
    and p1: "planned ?del (Deleted dr) = tr1 @ rest1" and ok1: "r1 = Done None \<longrightarrow> rest1 = []"
    by blast
  from range_loop_step [OF L2] obtain tr2 rest2 where
    c2: "conn2 = conn1\<lparr>issued := issued conn1 @ tr2\<rparr>"
    and p2: "planned ?cre (Added dr) = tr2 @ rest2" and ok2: "r2 = Done None \<longrightarrow> rest2 = []"
    by blast
  from range_loop_step [OF L3] obtain tr3 rest3 where
    c3: "conn3 = conn2\<lparr>issued := issued conn2 @ tr3\<rparr>"
    and p3: "planned ?upd (Modified dr) = tr3 @ rest3"
    by blast
  have k1: "list_all is_delete tr1"
    using planned_kind(1) [of _ h "Id d" v "Deleted dr"] p1 by (simp add: list_all_iff)
  have k2: "list_all is_create tr2"
    using planned_kind(2) [of _ h "Id d" v "Added dr"] p2 by (simp add: list_all_iff)
  have k3: "list_all is_update tr3"
    using planned_kind(3) [of _ "NewSetDiff name_key" d v "old_set h d" "Modified dr"] p3
    by (simp add: list_all_iff)
  show ?thesis
  proof (cases "r1 = Done None")
    case False
    then have "Process h d v conn = (r1, conn1)"
      using D L1 by (simp add: Process_unfold)
    with c1 have "issued (snd (Process h d v conn)) = issued conn @ tr1 @ [] @ []"
      by simp
    with k1 show ?thesis
      by (intro exI [of _ tr1] exI [of _ "[]"]) simp
  next
    case r1: True
    with ok1 p1 have f1: "tr1 = planned ?del (Deleted dr)"
      by simp
    have n1: "\<forall>x \<in> set (Deleted dr). ?del x \<noteq> Panic"
      using range_loop_no_panic [OF L1 [unfolded r1]] by blast
    show ?thesis
    proof (cases "r2 = Done None")
      case False
      then have "Process h d v conn = (r2, conn2)"
        using D L1 L2 r1 by (simp add: Process_unfold)
      with c1 c2 have "issued (snd (Process h d v conn)) = issued conn @ tr1 @ tr2 @ []"
        by simp
      with k1 k2 f1 n1 show ?thesis
        by (intro exI [of _ tr1] exI [of _ tr2] exI [of _ "[]"]) simp
    next
      case r2: True
      with ok2 p2 have f2: "tr2 = planned ?cre (Added dr)"
        by simp
      have n2: "\<forall>x \<in> set (Added dr). ?cre x \<noteq> Panic"
        using range_loop_no_panic [OF L2 [unfolded r2]] by blast
      have "Process h d v conn = (r3, conn3)"
        using D L1 L2 L3 r1 r2 by (simp add: Process_unfold)
      with c1 c2 c3 have "issued (snd (Process h d v conn)) = issued conn @ tr1 @ tr2 @ tr3"
        by simp
      with k1 k2 k3 f1 n1 f2 n2 show ?thesis
        by (intro exI [of _ tr1] exI [of _ tr2] exI [of _ tr3]) simp
    qed
  qed
qed

lemma filter_kinds:
  assumes "list_all is_delete ds" "list_all is_create cs" "list_all is_update us"
  shows "filter is_delete (ds @ cs @ us) = ds" "filter is_create (ds @ cs @ us) = cs"
    "filter is_update (ds @ cs @ us) = us"
proof -
  have a: "filter is_delete ds = ds" "filter is_create cs = cs" "filter is_update us = us"
    using assms by (simp_all add: list_all_iff)
  have b: "filter is_delete cs = []" "filter is_delete us = []" "filter is_create ds = []"
    "filter is_create us = []" "filter is_update ds = []" "filter is_update cs = []"
    using assms kinds_disjoint by (auto simp: list_all_iff filter_empty_conv)
  show "filter is_delete (ds @ cs @ us) = ds" "filter is_create (ds @ cs @ us) = cs"
    "filter is_update (ds @ cs @ us) = us"
    using a b by simp_all
qed

text \<open>
  C10: the calls that one run of \<^verbatim>\<open>Process\<close> issues are its delete calls, then its
  create calls, then its update calls. When a create or update call is issued at all, the
  delete calls before it are one for every record of the old set whose name no record of
  the new set has, under that record's name, and \<^verbatim>\<open>deleteKafka\<close> has taken the answer to
  each of them as success: no endpoint is created or updated before every endpoint with a
  deleted name has been removed. When an update call is issued, the create calls before it
  are one for every record that is to be created.
\<close>

theorem deletes_before_creates_before_updates:
  assumes nc: "nc = new_calls conn (snd (Process h d v conn))"
  shows "issued (snd (Process h d v conn)) = issued conn @ nc
     \<and> nc = filter is_delete nc @ filter is_create nc @ filter is_update nc
     \<and> (filter is_create nc @ filter is_update nc \<noteq> [] \<longrightarrow>
          filter is_delete nc =
            map (\<lambda>r. DeleteKafka \<lparr>DeleteKafkaInput.ServiceID = Id d, ServiceVersion = v,
                        Name = name_of r\<rparr>)
              (filter (\<lambda>r. \<not> has_key (NewSetDiff name_key) (new_set h d) r) (old_set h d))
          \<and> (\<forall>j < length (filter is_delete nc).
                not_found_ok (respond conn (issued conn @ take j nc) (nc ! j)) = None))
     \<and> (filter is_update nc \<noteq> [] \<longrightarrow>
          map call_Name (filter is_create nc) = map name_of
            (filter (\<lambda>r. \<not> has_key (NewSetDiff name_key) (old_set h d) r \<and> name_of r \<noteq> [])
               (new_set h d)))"
proof (cases "Diff (NewSetDiff name_key) (old_set h d) (new_set h d)")
  case (Inl e)
  then have "Process h d v conn = (Done (Some e), conn)"
    by (rule Process_Inl)
  with nc show ?thesis
    by (simp add: new_calls_def)
next
  case (Inr dr)
  let ?del = "delete_call h (Id d) v" and ?cre = "create_call h (Id d) v"
  from Process_phases [OF Inr, of v conn] obtain ds cs us where
    i: "issued (snd (Process h d v conn)) = issued conn @ ds @ cs @ us"
    and k: "list_all is_delete ds" "list_all is_create cs" "list_all is_update us"
    and f1: "cs @ us \<noteq> [] \<longrightarrow> ds = planned ?del (Deleted dr)
          \<and> (\<forall>x \<in> set (Deleted dr). ?del x \<noteq> Panic)"
    and f2: "us \<noteq> [] \<longrightarrow> cs = planned ?cre (Added dr)
          \<and> (\<forall>x \<in> set (Added dr). ?cre x \<noteq> Panic)"
    by blast
  from i nc have n: "nc = ds @ cs @ us"
    by (simp add: new_calls_def)
  note fk = filter_kinds [OF k, folded n]
  note parts = Diff_Inr [OF Inr]
  from Process_trace [OF Inr surjective_pairing, of v conn] obtain tr where
    "snd (Process h d v conn) = conn\<lparr>issued := issued conn @ tr\<rparr>"
    and "fail_fast (respond conn) (issued conn) tr (fst (Process h d v conn))"
    by blast
  with i n have ff: "fail_fast (respond conn) (issued conn) nc (fst (Process h d v conn))"
    by simp
  have 1: "ds = map (\<lambda>r. DeleteKafka \<lparr>DeleteKafkaInput.ServiceID = Id d, ServiceVersion = v,
                        Name = name_of r\<rparr>)
              (filter (\<lambda>r. \<not> has_key (NewSetDiff name_key) (new_set h d) r) (old_set h d))"
    if "cs @ us \<noteq> []"
    using f1 that planned_delete [of "Deleted dr" h "Id d" v] parts by simp
  have 2: "not_found_ok (respond conn (issued conn @ take j nc) (nc ! j)) = None"
    if "cs @ us \<noteq> []" "j < length ds" for j
  proof (rule ccontr)
    assume a: "not_found_ok (respond conn (issued conn @ take j nc) (nc ! j)) \<noteq> None"
    from that(2) have e: "nc ! j = ds ! j" and l1: "j < length nc"
      by (simp_all add: n nth_append)
    from that have l2: "Suc j < length nc"
      by (cases cs; cases us; simp add: n)
    from that(2) k(1) have "is_delete (ds ! j)"
      by (simp add: list_all_length)
    with a e have "verdict (nc ! j) (respond conn (issued conn @ take j nc) (nc ! j)) \<noteq> None"
      by (simp add: verdict_def)
    with ff l1 have "Suc j = length nc"
      unfolding fail_fast_def by blast
    with l2 show False by simp
  qed
  have 3: "map call_Name cs = map name_of
            (filter (\<lambda>r. \<not> has_key (NewSetDiff name_key) (old_set h d) r \<and> name_of r \<noteq> [])
               (new_set h d))"
    if "us \<noteq> []"
    using f2 that planned_create [of "Added dr" h "Id d" v] parts by simp
  from i n 1 2 3 show ?thesis
    unfolding fk by simp
qed

theorem deletes_before_creates_before_updates_witness:
  "filter is_delete
     [DeleteKafka \<lparr>DeleteKafkaInput.ServiceID = ''svc'', ServiceVersion = 3, Name = ''b''\<rparr>,
      CreateKafka ex_create, UpdateKafka ex_update]
     = [DeleteKafka \<lparr>DeleteKafkaInput.ServiceID = ''svc'', ServiceVersion = 3, Name = ''b''\<rparr>]
   \<and> not_found_ok (respond (ex_client (\<lambda>past c. None)) (issued (ex_client (\<lambda>past c. None)))
        (DeleteKafka \<lparr>DeleteKafkaInput.ServiceID = ''svc'', ServiceVersion = 3,
           Name = ''b''\<rparr>)) = None
   \<and> map call_Name (filter is_create
        [DeleteKafka \<lparr>DeleteKafkaInput.ServiceID = ''svc'', ServiceVersion = 3, Name = ''b''\<rparr>,
         CreateKafka ex_create, UpdateKafka ex_update]) = [''c'']"
proof -
  let ?h = ex_handler and ?d = "ex_data ex_old ex_new"
  let ?c = "ex_client (\<lambda>past c. None)"
  let ?nc = "[DeleteKafka \<lparr>DeleteKafkaInput.ServiceID = ''svc'', ServiceVersion = 3,
                 Name = ''b''\<rparr>, CreateKafka ex_create, UpdateKafka ex_update]"
  have 1: "map (\<lambda>r. DeleteKafka \<lparr>DeleteKafkaInput.ServiceID = Id ?d, ServiceVersion = 3,
                       Name = name_of r\<rparr>)
            (filter (\<lambda>r. \<not> has_key (NewSetDiff name_key) (new_set ?h ?d) r) (old_set ?h ?d))
      = [DeleteKafka \<lparr>DeleteKafkaInput.ServiceID = ''svc'', ServiceVersion = 3, Name = ''b''\<rparr>]"
    by code_simp
  have 2: "map name_of
          (filter (\<lambda>r. \<not> has_key (NewSetDiff name_key) (old_set ?h ?d) r \<and> name_of r \<noteq> [])
             (new_set ?h ?d)) = [''c'']"
    by code_simp
  have k: "filter is_create ?nc @ filter is_update ?nc \<noteq> []" "filter is_update ?nc \<noteq> []"
    "0 < length (filter is_delete ?nc)"
    by (simp_all add: is_create_def is_update_def is_delete_def)
  note T = deletes_before_creates_before_updates [OF ex_pass_calls [symmetric]]
  from T k(1) have B: "filter is_delete ?nc =
      map (\<lambda>r. DeleteKafka \<lparr>DeleteKafkaInput.ServiceID = Id ?d, ServiceVersion = 3,
                       Name = name_of r\<rparr>)
            (filter (\<lambda>r. \<not> has_key (NewSetDiff name_key) (new_set ?h ?d) r) (old_set ?h ?d))"
    and J: "\<forall>j < length (filter is_delete ?nc).
        not_found_ok (respond ?c (issued ?c @ take j ?nc) (?nc ! j)) = None"
    by blast+
  from T k(2) have C: "map call_Name (filter is_create ?nc) = map name_of
          (filter (\<lambda>r. \<not> has_key (NewSetDiff name_key) (old_set ?h ?d) r \<and> name_of r \<noteq> [])
             (new_set ?h ?d))"
    by blast
  from J k(3) have "not_found_ok (respond ?c (issued ?c @ take 0 ?nc) (?nc ! 0)) = None"
    by blast
  then have N: "not_found_ok (respond ?c (issued ?c)
        (DeleteKafka \<lparr>DeleteKafkaInput.ServiceID = ''svc'', ServiceVersion = 3,
           Name = ''b''\<rparr>)) = None"
    by simp
  from B C N show ?thesis
    unfolding 1 2 by simp
qed

section \<open>Records without a name\<close>

lemma without_simps [simp]:
  "Id (without d h x) = Id d" "old_set h (without d h x) = old_set h d"
  "new_set h (without d h x) = removeAll x (new_set h d)"
  by (simp_all add: without_def old_set_def new_set_def)

lemma has_key_iff: "has_key h xs x \<longleftrightarrow> (\<exists>y \<in> set xs. keyFunc h y = keyFunc h x)"
  unfolding has_key_def set_map image_iff by (rule bex_cong) auto

lemma extract_keys_removeAll:
  "keyFunc h x = Inr k \<Longrightarrow>
   (case extract_keys h xs of
      Inl e \<Rightarrow> extract_keys h (removeAll x xs) = Inl e
    | Inr ks \<Rightarrow> \<exists>ks'. extract_keys h (removeAll x xs) = Inr ks')"
  by (induction xs) (auto split: sum.splits)

lemma has_key_removeAll:
  assumes "\<not> has_key h oldSet x" "y \<in> set oldSet"
  shows "has_key h (removeAll x newSet) y = has_key h newSet y"
proof -
  from assms have "keyFunc h x \<noteq> keyFunc h y"
    by (auto simp: has_key_iff)
  then have "(\<exists>z \<in> set (removeAll x newSet). keyFunc h z = keyFunc h y)
      \<longleftrightarrow> (\<exists>z \<in> set newSet. keyFunc h z = keyFunc h y)"
    by auto
  then show ?thesis
    by (simp only: has_key_iff)
qed

lemma differing_has_key: "differing h oldSet x \<Longrightarrow> has_key h oldSet x"
  by (auto simp: differing_def has_key_iff split: option.splits dest!: counterpart_Some)

lemma Diff_removeAll:
  assumes k: "keyFunc h x = Inr k" and n: "\<not> has_key h oldSet x"
  shows "Diff h oldSet (removeAll x newSet) =
     (case Diff h oldSet newSet of
        Inl e \<Rightarrow> Inl e
      | Inr dr \<Rightarrow> Inr (dr\<lparr>Added := removeAll x (Added dr)\<rparr>))"
proof (cases "extract_keys h oldSet")
  case (Inl e)
  then show ?thesis by (simp add: Diff_def)
next
  case old: (Inr oldKeys)
  show ?thesis
  proof (cases "extract_keys h newSet")
    case (Inl e)
    with extract_keys_removeAll [OF k, of newSet] old show ?thesis
      by (simp add: Diff_def)
  next
    case (Inr newKeys)
    with extract_keys_removeAll [OF k, of newSet] obtain ks' where
      ks': "extract_keys h (removeAll x newSet) = Inr ks'"
      by auto
    have a: "filter (\<lambda>elem. \<not> has_key h oldSet elem) (removeAll x newSet)
        = removeAll x (filter (\<lambda>elem. \<not> has_key h oldSet elem) newSet)"
      by (induction newSet) auto
    have m: "filter (differing h oldSet) (removeAll x newSet) = filter (differing h oldSet) newSet"
      using n differing_has_key [of h oldSet x] by (induction newSet) auto
    have d: "filter (\<lambda>elem. \<not> has_key h (removeAll x newSet) elem) oldSet
        = filter (\<lambda>elem. \<not> has_key h newSet elem) oldSet"
      using has_key_removeAll [OF n] by (intro filter_cong) auto
    show ?thesis
      using old Inr ks' a m d by (simp add: Diff_def)
  qed
qed

lemma range_loop_removeAll:
  "(\<And>conn. body x conn = (Done None, conn)) \<Longrightarrow>
   range_loop body (removeAll x xs) conn = range_loop body xs conn"
proof (induction xs arbitrary: conn)
  case Nil
  then show ?case by simp
next
  case (Cons y ys)
  then show ?case
    by (cases "body y conn") (auto split: exec.splits option.splits)
qed

lemma update_call_without:
  "update_call sd (without d h x) v old = update_call sd d v old"
  by (simp add: fun_eq_iff update_call_def update_opts_def split: resource.splits)

lemma create_skips:
  "fmlookup m ''name'' = None \<or> fmlookup m ''name'' = Some (VString []) \<Longrightarrow>
   create_body h sid v (RMap m) conn = (Done None, conn)"
  by (auto simp: create_body_def assert_string_def)

text \<open>
  C8: a record of the Added partition whose \<^verbatim>\<open>name\<close> key is absent, or whose name is
  the empty string, is passed over by the create loop without a call and without an error,
  and the whole run of \<^verbatim>\<open>Process\<close> has the result and issues the calls that it has
  and issues when the record is not in the new set.
\<close>

theorem nameless_added_record_skipped:
  assumes D: "Diff (NewSetDiff name_key) (old_set h d) (new_set h d) = Inr dr"
    and A: "RMap m \<in> set (Added dr)"
    and N: "fmlookup m ''name'' = None \<or> fmlookup m ''name'' = Some (VString [])"
  shows "create_body h (Id d) v (RMap m) conn = (Done None, conn)
     \<and> Process h (without d h (RMap m)) v conn = Process h d v conn"
proof -
  let ?sd = "NewSetDiff name_key"
  from A Diff_Inr [OF D] have n: "\<not> has_key ?sd (old_set h d) (RMap m)"
    by simp
  have k: "keyFunc ?sd (RMap m) = Inr (index m ''name'')"
    by (simp add: name_key_def)
  have D': "Diff ?sd (old_set h d) (removeAll (RMap m) (new_set h d))
      = Inr (dr\<lparr>Added := removeAll (RMap m) (Added dr)\<rparr>)"
    using Diff_removeAll [OF k n, of "new_set h d"] D by simp
  have s: "step (create_call h (Id d) v) id (RMap m) c = (Done None, c)" for c
    using create_skips [OF N, of h "Id d" v c] by (simp add: create_body_step)
  have "Process h (without d h (RMap m)) v conn = Process h d v conn"
    using D D' range_loop_removeAll [of "step (create_call h (Id d) v) id" "RMap m", OF s]
    by (simp add: Process_unfold update_call_without Let_def)
  with create_skips [OF N] show ?thesis
    by simp
qed

lemma ex_defunct_diff:
  "Diff (NewSetDiff name_key)
     (old_set ex_handler (ex_data [] [RMap (ex_block [] ''t''), RMap (ex_block ''c'' ''t'')]))
     (new_set ex_handler (ex_data [] [RMap (ex_block [] ''t''), RMap (ex_block ''c'' ''t'')]))
   = Inr \<lparr>Added = [RMap (ex_block [] ''t''), RMap (ex_block ''c'' ''t'')], Modified = [],
          Deleted = []\<rparr>"
  by code_simp

theorem nameless_added_record_skipped_witness:
  "create_body ex_handler
      (Id (ex_data [] [RMap (ex_block [] ''t''), RMap (ex_block ''c'' ''t'')])) 3
      (RMap (ex_block [] ''t'')) (ex_client (\<lambda>past c. None))
     = (Done None, ex_client (\<lambda>past c. None))
   \<and> Process ex_handler
       (without (ex_data [] [RMap (ex_block [] ''t''), RMap (ex_block ''c'' ''t'')]) ex_handler
          (RMap (ex_block [] ''t''))) 3 (ex_client (\<lambda>past c. None))
     = Process ex_handler (ex_data [] [RMap (ex_block [] ''t''), RMap (ex_block ''c'' ''t'')]) 3
         (ex_client (\<lambda>past c. None))"
proof -
  have A: "RMap (ex_block [] ''t'') \<in> set (Added
      \<lparr>Added = [RMap (ex_block [] ''t''), RMap (ex_block ''c'' ''t'')], Modified = [],
          Deleted = []\<rparr>)"
    by simp
  have N: "fmlookup (ex_block [] ''t'') ''name'' = None
      \<or> fmlookup (ex_block [] ''t'') ''name'' = Some (VString [])"
    by (simp add: ex_block_def)
  from nameless_added_record_skipped [OF ex_defunct_diff A N] show ?thesis .
qed


section \<open>The partitions of the diff\<close>










section \<open>Idempotent delete\<close>

text \<open>
  C3: when the client's \<^verbatim>\<open>DeleteKafka\<close> call answers with an HTTP error whose status
  code is 404, \<^verbatim>\<open>deleteKafka\<close> returns nil: deleting an endpoint that is already absent
  is not an error.
\<close>

theorem deleteKafka_not_found:
  "respond conn (issued conn) (DeleteKafka i) = Some (HTTPError 404 msg)
   \<Longrightarrow> fst (deleteKafka conn i) = None"
  by (simp add: deleteKafka_def invoke_def)

theorem deleteKafka_not_found_witness:
  "respond \<lparr>respond = (\<lambda>past c. Some (HTTPError 404 ''Not Found'')), issued = []\<rparr> []
      (DeleteKafka \<lparr>DeleteKafkaInput.ServiceID = ''svc'', ServiceVersion = 3, Name = ''log''\<rparr>)
     = Some (HTTPError 404 ''Not Found'')
   \<and> fst (deleteKafka \<lparr>respond = (\<lambda>past c. Some (HTTPError 404 ''Not Found'')), issued = []\<rparr>
        \<lparr>DeleteKafkaInput.ServiceID = ''svc'', ServiceVersion = 3, Name = ''log''\<rparr>) = None"
  using deleteKafka_not_found [of "\<lparr>respond = (\<lambda>past c. Some (HTTPError 404 ''Not Found'')), issued = []\<rparr>"
      "\<lparr>DeleteKafkaInput.ServiceID = ''svc'', ServiceVersion = 3, Name = ''log''\<rparr>" "''Not Found''"]
  by simp

section \<open>Reading endpoints back\<close>

lemma prune_lookup:
  "fmlookup (prune ks m) k =
     (if k \<in> set ks \<and> fmlookup m k = Some (VString []) then None else fmlookup m k)"
  by (induction ks arbitrary: m) (auto split: option.splits)

lemma flatKafka_dom: "fmlookup (flatKafka s) k = Some v \<Longrightarrow> k \<in> set kafka_keys"
  by (simp add: flatKafka_def kafka_keys_def split: if_splits)

text \<open>
  C9: no map that \<^verbatim>\<open>flattenKafka\<close> produces has a key whose value is the empty string.
\<close>

theorem flattenKafka_pruned:
  "m \<in> set (flattenKafka kafkaList) \<Longrightarrow> fmlookup m k \<noteq> Some (VString [])"
proof
  assume m: "m \<in> set (flattenKafka kafkaList)" and k: "fmlookup m k = Some (VString [])"
  from m obtain s where s: "m = prune kafka_keys (flatKafka s)"
    by (auto simp: flattenKafka_def)
  from k s have "fmlookup (flatKafka s) k = Some (VString [])" "k \<notin> set kafka_keys"
    by (auto simp: prune_lookup split: if_splits)
  then show False
    using flatKafka_dom by blast
qed


theorem flattenKafka_pruned_witness:
  "fmlookup (prune kafka_keys (flatKafka
      \<lparr>Kafka.Name = ''log'', Topic = ''t'', Brokers = ''b'', CompressionCodec = [],
       RequiredACKs = [], UseTLS = False, TLSCACert = [], TLSClientCert = [],
       TLSClientKey = [], TLSHostname = [], Format = [], FormatVersion = 2, Placement = [],
       ResponseCondition = [], ParseLogKeyvals = False, RequestMaxBytes = 0,
       AuthMethod = [], User = [], Password = []\<rparr>)) ''user'' \<noteq> Some (VString [])"
  using flattenKafka_pruned [of
      "prune kafka_keys (flatKafka
        \<lparr>Kafka.Name = ''log'', Topic = ''t'', Brokers = ''b'', CompressionCodec = [],
         RequiredACKs = [], UseTLS = False, TLSCACert = [], TLSClientCert = [],
         TLSClientKey = [], TLSHostname = [], Format = [], FormatVersion = 2, Placement = [],
         ResponseCondition = [], ParseLogKeyvals = False, RequestMaxBytes = 0,
         AuthMethod = [], User = [], Password = []\<rparr>)"
      "[\<lparr>Kafka.Name = ''log'', Topic = ''t'', Brokers = ''b'', CompressionCodec = [],
         RequiredACKs = [], UseTLS = False, TLSCACert = [], TLSClientCert = [],
         TLSClientKey = [], TLSHostname = [], Format = [], FormatVersion = 2, Placement = [],
         ResponseCondition = [], ParseLogKeyvals = False, RequestMaxBytes = 0,
         AuthMethod = [], User = [], Password = []\<rparr>]" "''user''"]
  by (simp add: flattenKafka_def)

end
